theory Spec2Isabelle
  imports Main "HOL-Library.Word" "HOL-Library.Monad_Syntax"
begin

unbundle bit_operations_syntax

section \<open>Data model\<close>

type_synonym u8 = "8 word"

text \<open>
  The two open-drain lines of the bus. The source names them by the members
  \<^verbatim>\<open>scl_pin\<close> and \<^verbatim>\<open>sda_pin\<close>; the model assumes that the two members name
  different pins.
\<close>

datatype pin = SCL | SDA

datatype pinmode = INPUT | OUTPUT_OPEN_DRAIN | Unconfigured

text \<open>
  The slave and the pull-ups are the environment: \<open>env p k\<close> is the level that the
  \<open>k\<close>-th call \<^verbatim>\<open>digitalReadFast(p)\<close> returns (\<open>True\<close> is HIGH). Every sequence
  of read results is such a function, so nothing is assumed about the slave.
\<close>

type_synonym slave = "pin \<Rightarrow> nat \<Rightarrow> bool"

text \<open>
  The bus primitives of \<^verbatim>\<open>SoftWire\<close>, with the byte or the acknowledge bit they carry.
  The list \<open>calls\<close> below records each primitive when it has completed; it is an
  observer of the run and no member of the class.
\<close>

datatype call =
    Start | Stop | RepeatedStart
  | GetAck bool | SendAck | SendNack
  | ShiftIn u8 | ShiftOut u8

text \<open>
  The members of \<^verbatim>\<open>SoftWire\<close> itself (\<^verbatim>\<open>i2c_delay\<close>, \<^verbatim>\<open>scl_pin\<close>, \<^verbatim>\<open>sda_pin\<close>)
  and the state of the two pins: the level last written to each, the mode last set, and
  how often each has been read.
\<close>

record bus =
  i2c_delay :: u8
  scl_pin :: nat
  sda_pin :: nat
  scl_out :: bool
  sda_out :: bool
  scl_mode :: pinmode
  sda_mode :: pinmode
  scl_reads :: nat
  sda_reads :: nat
  nops :: nat
  calls :: "call list"

text \<open>
  \<^verbatim>\<open>itc_msg.data\<close> is a pointer into one of the two buffers of the object:
  \<^verbatim>\<open>&tx_buf[n]\<close> or \<^verbatim>\<open>&rx_buf[n]\<close>.
\<close>

datatype bufptr = TxPtr nat | RxPtr nat

text \<open>
  The message descriptor \<^verbatim>\<open>i2c_msg\<close> and the members of \<^verbatim>\<open>WireBase\<close>. Their
  declarations are in \<^verbatim>\<open>WireBase.h\<close>, which is not among the sources; the fields
  are the ones the code uses. Counts and indices are natural numbers (no wrap-around is
  modelled for them), the address is the \<^verbatim>\<open>uint8_t\<close> that every caller stores, and
  both buffers are lists whose length is the capacity of the array.
\<close>

record i2c_msg =
  addr :: u8
  flags :: nat
  length_m :: nat
  xferred :: nat
  data :: bufptr

record softwire =
  itc_msg :: i2c_msg
  rx_buf :: "u8 list"
  rx_buf_idx :: nat
  rx_buf_len :: nat
  tx_buf :: "u8 list"
  tx_buf_idx :: nat
  tx_buf_overflow :: bool
  port :: bus

text \<open>The status codes; their numeric values are macros of the absent header.\<close>

datatype status = I2C_OK | I2C_DATA_TOO_LONG | I2C_NACK_ADDR | I2C_NACK_DATA

text \<open>
  An access outside a buffer is undefined behaviour in C++. The model stops there with
  \<open>Inl OutOfBounds\<close>.
\<close>

datatype error = OutOfBounds

definition I2C_READ :: u8 where
  "I2C_READ = 1"

text \<open>
  Modelled from the spec: the macro \<^verbatim>\<open>I2C_MSG_READ\<close> of the absent
  \<^verbatim>\<open>WireBase.h\<close>, the value of \<^verbatim>\<open>itc_msg.flags\<close> for the direction Read. It
  differs from the \<open>0\<close> that \<^verbatim>\<open>beginTransmission\<close> stores for Write.
\<close>

definition I2C_MSG_READ :: nat where
  "I2C_MSG_READ = 1"

section \<open>The pins\<close>

text \<open>\<^verbatim>\<open>I2C_Delay(loops)\<close> executes \<open>loops\<close> no-ops and returns.\<close>

definition I2C_Delay :: "nat \<Rightarrow> bus \<Rightarrow> bus" where
  "I2C_Delay loops h = h\<lparr>nops := nops h + loops\<rparr>"

definition digitalWriteFast :: "pin \<Rightarrow> bool \<Rightarrow> bus \<Rightarrow> bus" where
  "digitalWriteFast p state h =
     (case p of SCL \<Rightarrow> h\<lparr>scl_out := state\<rparr> | SDA \<Rightarrow> h\<lparr>sda_out := state\<rparr>)"

definition digitalReadFast :: "slave \<Rightarrow> pin \<Rightarrow> bus \<Rightarrow> bool \<times> bus" where
  "digitalReadFast env p h =
     (case p of
        SCL \<Rightarrow> (env SCL (scl_reads h), h\<lparr>scl_reads := Suc (scl_reads h)\<rparr>)
      | SDA \<Rightarrow> (env SDA (sda_reads h), h\<lparr>sda_reads := Suc (sda_reads h)\<rparr>))"

definition pinMode :: "pin \<Rightarrow> pinmode \<Rightarrow> bus \<Rightarrow> bus" where
  "pinMode p m h = (case p of SCL \<Rightarrow> h\<lparr>scl_mode := m\<rparr> | SDA \<Rightarrow> h\<lparr>sda_mode := m\<rparr>)"

section \<open>SoftWire.cpp\<close>

text \<open>
  The busy-wait of \<^verbatim>\<open>set_scl\<close>: \<^verbatim>\<open>while (digitalReadFast(scl_pin) == 0) ;\<close>.
  A slave that holds the clock low for ever keeps the loop running: the result is
  \<open>None\<close>.
\<close>

partial_function (option) scl_wait :: "slave \<Rightarrow> bus \<Rightarrow> bus option" where
  "scl_wait env h =
     (case digitalReadFast env SCL h of
        (v, h') \<Rightarrow> if \<not> v then scl_wait env h' else Some h')"

definition set_scl :: "slave \<Rightarrow> bool \<Rightarrow> bus \<Rightarrow> bus option" where
  "set_scl env state h =
     (let h1 = I2C_Delay (unat (i2c_delay h)) h;
          h2 = digitalWriteFast SCL state h1
      in if state then scl_wait env h2 else Some h2)"

definition set_sda :: "bool \<Rightarrow> bus \<Rightarrow> bus" where
  "set_sda state h = digitalWriteFast SDA state (I2C_Delay (unat (i2c_delay h)) h)"

text \<open>The observer: a primitive that has completed is appended to \<open>calls\<close>.\<close>

definition logc :: "call \<Rightarrow> bus \<Rightarrow> bus" where
  "logc c h = h\<lparr>calls := calls h @ [c]\<rparr>"

definition i2c_start :: "slave \<Rightarrow> bus \<Rightarrow> bus option" where
  "i2c_start env h = do {
     h1 \<leftarrow> set_scl env False (set_sda False h);
     Some (logc Start h1) }"

definition i2c_stop :: "slave \<Rightarrow> bus \<Rightarrow> bus option" where
  "i2c_stop env h = do {
     h1 \<leftarrow> set_scl env True (set_sda False h);
     Some (logc Stop (set_sda True h1)) }"

definition i2c_repeated_start :: "slave \<Rightarrow> bus \<Rightarrow> bus option" where
  "i2c_repeated_start env h = do {
     h1 \<leftarrow> set_scl env True (set_sda True h);
     Some (logc RepeatedStart (set_sda False h1)) }"

definition i2c_get_ack :: "slave \<Rightarrow> bus \<Rightarrow> (bool \<times> bus) option" where
  "i2c_get_ack env h = do {
     h1 \<leftarrow> set_scl env False h;
     h2 \<leftarrow> set_scl env True (set_sda True h1);
     (case digitalReadFast env SDA h2 of
        (v, h3) \<Rightarrow> do {
          h4 \<leftarrow> set_scl env False h3;
          Some (\<not> v, logc (GetAck (\<not> v)) h4) }) }"

definition i2c_send_ack :: "slave \<Rightarrow> bus \<Rightarrow> bus option" where
  "i2c_send_ack env h = do {
     h1 \<leftarrow> set_scl env True (set_sda False h);
     h2 \<leftarrow> set_scl env False h1;
     Some (logc SendAck h2) }"

definition i2c_send_nack :: "slave \<Rightarrow> bus \<Rightarrow> bus option" where
  "i2c_send_nack env h = do {
     h1 \<leftarrow> set_scl env True (set_sda True h);
     h2 \<leftarrow> set_scl env False h1;
     Some (logc SendNack h2) }"

text \<open>The loop of \<^verbatim>\<open>i2c_shift_in\<close>, entered with the counter \<open>i\<close>.\<close>

function shift_in_loop :: "slave \<Rightarrow> nat \<Rightarrow> u8 \<Rightarrow> bus \<Rightarrow> (u8 \<times> bus) option" where
  "shift_in_loop env i d h =
     (if i < 8 then do {
        h1 \<leftarrow> set_scl env True h;
        (case digitalReadFast env SDA h1 of
           (v, h2) \<Rightarrow> do {
             h3 \<leftarrow> set_scl env False h2;
             shift_in_loop env (Suc i) (d OR (if v then push_bit (7 - i) 1 else 0)) h3 }) }
      else Some (d, h))"
  by pat_completeness auto
termination
  by (relation "measure (\<lambda>(env, i, d, h). 8 - i)") auto

declare shift_in_loop.simps [simp del]

definition i2c_shift_in :: "slave \<Rightarrow> bus \<Rightarrow> (u8 \<times> bus) option" where
  "i2c_shift_in env h = do {
     (d, h1) \<leftarrow> shift_in_loop env 0 0 (set_sda True h);
     Some (d, logc (ShiftIn d) h1) }"

function shift_out_loop :: "slave \<Rightarrow> u8 \<Rightarrow> nat \<Rightarrow> bus \<Rightarrow> bus option" where
  "shift_out_loop env val i h =
     (if i < 8 then do {
        h1 \<leftarrow> set_scl env True (set_sda (bit val (7 - i)) h);
        h2 \<leftarrow> set_scl env False h1;
        shift_out_loop env val (Suc i) h2 }
      else Some h)"
  by pat_completeness auto
termination
  by (relation "measure (\<lambda>(env, val, i, h). 8 - i)") auto

declare shift_out_loop.simps [simp del]

definition i2c_shift_out :: "slave \<Rightarrow> u8 \<Rightarrow> bus \<Rightarrow> bus option" where
  "i2c_shift_out env val h = do {
     h1 \<leftarrow> shift_out_loop env val 0 h;
     Some (logc (ShiftOut val) h1) }"

text \<open>\<^verbatim>\<open>itc_msg.data[i]\<close>, read and written.\<close>

definition load_data :: "softwire \<Rightarrow> nat \<Rightarrow> error + u8" where
  "load_data s i =
     (case data (itc_msg s) of
        TxPtr off \<Rightarrow>
          if off + i < length (tx_buf s) then Inr (tx_buf s ! (off + i)) else Inl OutOfBounds
      | RxPtr off \<Rightarrow>
          if off + i < length (rx_buf s) then Inr (rx_buf s ! (off + i)) else Inl OutOfBounds)"

definition store_data :: "softwire \<Rightarrow> nat \<Rightarrow> u8 \<Rightarrow> error + softwire" where
  "store_data s i v =
     (case data (itc_msg s) of
        TxPtr off \<Rightarrow>
          if off + i < length (tx_buf s) then Inr (s\<lparr>tx_buf := (tx_buf s)[off + i := v]\<rparr>)
          else Inl OutOfBounds
      | RxPtr off \<Rightarrow>
          if off + i < length (rx_buf s) then Inr (s\<lparr>rx_buf := (rx_buf s)[off + i := v]\<rparr>)
          else Inl OutOfBounds)"

text \<open>The assignments to \<^verbatim>\<open>itc_msg.xferred\<close>.\<close>

definition set_xferred :: "nat \<Rightarrow> softwire \<Rightarrow> softwire" where
  "set_xferred n s = s\<lparr>itc_msg := (itc_msg s)\<lparr>xferred := n\<rparr>\<rparr>"

text \<open>
  The receiving loop of \<^verbatim>\<open>process\<close>:
  \<^verbatim>\<open>while (itc_msg.xferred < itc_msg.length) { ... }\<close>.
\<close>

partial_function (option) read_loop :: "slave \<Rightarrow> softwire \<Rightarrow> (error + softwire) option" where
  "read_loop env s =
     (if xferred (itc_msg s) < length_m (itc_msg s) then do {
        (d, h1) \<leftarrow> i2c_shift_in env (port s);
        (case store_data s (xferred (itc_msg s)) d of
           Inl e \<Rightarrow> Some (Inl e)
         | Inr s1 \<Rightarrow> do {
             let s2 = set_xferred (Suc (xferred (itc_msg s1))) s1;
             h2 \<leftarrow> (if xferred (itc_msg s2) < length_m (itc_msg s2)
                    then i2c_send_ack env h1 else i2c_send_nack env h1);
             read_loop env (s2\<lparr>port := h2\<rparr>) }) }
      else Some (Inr s))"

text \<open>
  The sending loop: \<^verbatim>\<open>for (uint8_t i = 0; i < itc_msg.length; i++) { ... }\<close>. The
  counter is eight bits wide and wraps. The loop is left early with a stop condition and
  the status \<^verbatim>\<open>I2C_NACK_DATA\<close> (result \<open>Some st\<close>), or at its end (result \<open>None\<close>).
\<close>

partial_function (option) write_loop ::
    "slave \<Rightarrow> u8 \<Rightarrow> softwire \<Rightarrow> (error + status option \<times> softwire) option" where
  "write_loop env i s =
     (if unat i < length_m (itc_msg s) then
        (case load_data s (unat i) of
           Inl e \<Rightarrow> Some (Inl e)
         | Inr v \<Rightarrow> do {
             h1 \<leftarrow> i2c_shift_out env v (port s);
             (ack, h2) \<leftarrow> i2c_get_ack env h1;
             if \<not> ack then do {
               h3 \<leftarrow> i2c_stop env h2;
               Some (Inr (Some I2C_NACK_DATA, s\<lparr>port := h3\<rparr>)) }
             else write_loop env (i + 1)
                    (set_xferred (Suc (xferred (itc_msg s))) (s\<lparr>port := h2\<rparr>)) })
      else Some (Inr (None, s)))"

text \<open>The local \<^verbatim>\<open>sla_addr\<close> of \<^verbatim>\<open>process\<close>, a \<^verbatim>\<open>uint8_t\<close>.\<close>

definition sla_addr :: "i2c_msg \<Rightarrow> u8" where
  "sla_addr m =
     (let a = push_bit 1 (addr m)
      in if flags m = I2C_MSG_READ then a OR I2C_READ else a)"

text \<open>
  The end of \<^verbatim>\<open>process\<close> after the loops: a stop condition if \<^verbatim>\<open>stop == true\<close>,
  a repeated start otherwise, and the status \<^verbatim>\<open>I2C_OK\<close>. The argument is a
  \<^verbatim>\<open>uint8_t\<close>, so the comparison holds for the value 1 only.
\<close>

definition finish :: "slave \<Rightarrow> u8 \<Rightarrow> softwire \<Rightarrow> (error + status \<times> softwire) option" where
  "finish env stop s = do {
     h \<leftarrow> (if stop = 1 then i2c_stop env (port s) else i2c_repeated_start env (port s));
     Some (Inr (I2C_OK, s\<lparr>port := h\<rparr>)) }"

text \<open>
  \<^verbatim>\<open>process(uint8_t stop)\<close>. The result is \<open>None\<close> when a clock stretch never ends,
  \<open>Some (Inl OutOfBounds)\<close> when a loop leaves the buffer, and otherwise the status
  returned with the object as the call leaves it.
\<close>

definition process :: "slave \<Rightarrow> u8 \<Rightarrow> softwire \<Rightarrow> (error + status \<times> softwire) option" where
  "process env stop s0 =
     (let s = set_xferred 0 s0 in do {
        h1 \<leftarrow> i2c_start env (port s);
        h2 \<leftarrow> i2c_shift_out env (sla_addr (itc_msg s)) h1;
        (ack, h3) \<leftarrow> i2c_get_ack env h2;
        if \<not> ack then do {
          h4 \<leftarrow> i2c_stop env h3;
          Some (Inr (I2C_NACK_ADDR, s\<lparr>port := h4\<rparr>)) }
        else if flags (itc_msg s) = I2C_MSG_READ then do {
          r \<leftarrow> read_loop env (s\<lparr>port := h3\<rparr>);
          (case r of Inl e \<Rightarrow> Some (Inl e) | Inr s1 \<Rightarrow> finish env stop s1) }
        else do {
          r \<leftarrow> write_loop env 0 (s\<lparr>port := h3\<rparr>);
          (case r of
             Inl e \<Rightarrow> Some (Inl e)
           | Inr (Some st, s1) \<Rightarrow> Some (Inr (st, s1))
           | Inr (None, s1) \<Rightarrow> finish env stop s1) } })"

text \<open>The overload \<^verbatim>\<open>process()\<close> is \<^verbatim>\<open>process(true)\<close>.\<close>

definition process_legacy :: "slave \<Rightarrow> softwire \<Rightarrow> (error + status \<times> softwire) option" where
  "process_legacy env s = process env 1 s"

text \<open>The four assignments with which both \<^verbatim>\<open>begin\<close> functions start.\<close>

definition reset_indices :: "softwire \<Rightarrow> softwire" where
  "reset_indices s =
     s\<lparr>tx_buf_idx := 0, tx_buf_overflow := False, rx_buf_idx := 0, rx_buf_len := 0\<rparr>"

definition SoftWire_begin :: "slave \<Rightarrow> softwire \<Rightarrow> softwire option" where
  "SoftWire_begin env s =
     (let s1 = reset_indices s;
          h1 = pinMode SDA OUTPUT_OPEN_DRAIN (pinMode SCL OUTPUT_OPEN_DRAIN (port s1))
      in do {
        h2 \<leftarrow> set_scl env True h1;
        Some (s1\<lparr>port := set_sda True h2\<rparr>) })"

definition SoftWire_end :: "softwire \<Rightarrow> softwire" where
  "SoftWire_end s =
     (let h = port s;
          h1 = (if scl_pin h \<noteq> 0 then pinMode SCL INPUT h else h);
          h2 = (if sda_pin h1 \<noteq> 0 then pinMode SDA INPUT h1 else h1)
      in s\<lparr>port := h2\<rparr>)"

section \<open>WireBase.cpp\<close>

text \<open>
  The capacity \<^verbatim>\<open>I2C_TXRX_BUFFER_SIZE\<close> is a macro of the absent header; it is the
  parameter \<open>cap\<close> of the functions that use it.
\<close>

definition WireBase_begin :: "softwire \<Rightarrow> softwire" where
  "WireBase_begin s = reset_indices s"

definition beginTransmission :: "u8 \<Rightarrow> softwire \<Rightarrow> softwire" where
  "beginTransmission slave_address s =
     s\<lparr>itc_msg := (itc_msg s)\<lparr>addr := slave_address, data := TxPtr (tx_buf_idx s),
                               length_m := 0, flags := 0\<rparr>\<rparr>"

definition endTransmission :: "slave \<Rightarrow> softwire \<Rightarrow> (error + status \<times> softwire) option" where
  "endTransmission env s =
     (if tx_buf_overflow s then Some (Inr (I2C_DATA_TOO_LONG, s))
      else do {
        r \<leftarrow> process_legacy env s;
        (case r of
           Inl e \<Rightarrow> Some (Inl e)
         | Inr (stat, s1) \<Rightarrow>
             Some (Inr (stat, s1\<lparr>tx_buf_idx := 0, tx_buf_overflow := False\<rparr>))) })"

text \<open>
  \<^verbatim>\<open>requestFrom(uint8_t address, int num_bytes)\<close>. The count is a natural number
  here: a negative \<^verbatim>\<open>int\<close> would be converted to the unsigned type of
  \<^verbatim>\<open>itc_msg.length\<close>, whose declaration is absent. The result is the
  \<^verbatim>\<open>uint8_t\<close> that the function returns.
\<close>

definition requestFrom ::
    "nat \<Rightarrow> slave \<Rightarrow> u8 \<Rightarrow> nat \<Rightarrow> softwire \<Rightarrow> (error + u8 \<times> softwire) option" where
  "requestFrom cap env address num_bytes s =
     (let n = (if num_bytes > cap then cap else num_bytes);
          s1 = s\<lparr>itc_msg := (itc_msg s)\<lparr>addr := address, flags := I2C_MSG_READ,
                                         length_m := n, data := RxPtr (rx_buf_idx s)\<rparr>\<rparr>
      in do {
        r \<leftarrow> process_legacy env s1;
        (case r of
           Inl e \<Rightarrow> Some (Inl e)
         | Inr (stat, s2) \<Rightarrow>
             (let s3 = s2\<lparr>rx_buf_len := rx_buf_len s2 + xferred (itc_msg s2)\<rparr>;
                  s4 = s3\<lparr>itc_msg := (itc_msg s3)\<lparr>flags := 0\<rparr>\<rparr>
              in Some (Inr (word_of_nat (rx_buf_len s4), s4)))) })"

text \<open>\<^verbatim>\<open>write(uint8_t value)\<close>.\<close>

definition WireBase_write :: "nat \<Rightarrow> u8 \<Rightarrow> softwire \<Rightarrow> error + softwire" where
  "WireBase_write cap v s =
     (if tx_buf_idx s = cap then Inr (s\<lparr>tx_buf_overflow := True\<rparr>)
      else if tx_buf_idx s < length (tx_buf s) then
        Inr (s\<lparr>tx_buf := (tx_buf s)[tx_buf_idx s := v],
               tx_buf_idx := Suc (tx_buf_idx s),
               itc_msg := (itc_msg s)\<lparr>length_m := Suc (length_m (itc_msg s))\<rparr>\<rparr>)
      else Inl OutOfBounds)"

text \<open>
  \<^verbatim>\<open>write(uint8_t* buf, int len)\<close>: one call \<^verbatim>\<open>write(buf[i])\<close> for each byte, the
  bytes of \<^verbatim>\<open>buf\<close> given as a list. The counter of the source is a \<^verbatim>\<open>uint8_t\<close>, so
  the list stands for a \<^verbatim>\<open>len\<close> below 256.
\<close>

fun write_buf :: "nat \<Rightarrow> u8 list \<Rightarrow> softwire \<Rightarrow> error + softwire" where
  "write_buf cap [] s = Inr s"
| "write_buf cap (b # bs) s =
     (case WireBase_write cap b s of Inl e \<Rightarrow> Inl e | Inr s1 \<Rightarrow> write_buf cap bs s1)"

text \<open>
  \<^verbatim>\<open>available()\<close> returns the difference, computed in \<^verbatim>\<open>int\<close>, as a
  \<^verbatim>\<open>uint8_t\<close>.
\<close>

definition available :: "softwire \<Rightarrow> u8" where
  "available s = word_of_int (int (rx_buf_len s) - int (rx_buf_idx s))"

text \<open>\<^verbatim>\<open>read()\<close>; the comparison with \<^verbatim>\<open>rx_buf_len-1\<close> is one of \<^verbatim>\<open>int\<close>s.\<close>

definition WireBase_read :: "softwire \<Rightarrow> error + u8 \<times> softwire" where
  "WireBase_read s =
     (if rx_buf_idx s = rx_buf_len s then Inr (0, s\<lparr>rx_buf_idx := 0, rx_buf_len := 0\<rparr>)
      else if int (rx_buf_idx s) = int (rx_buf_len s) - 1 then
        (if rx_buf_idx s < length (rx_buf s)
         then Inr (rx_buf s ! rx_buf_idx s, s\<lparr>rx_buf_idx := 0, rx_buf_len := 0\<rparr>)
         else Inl OutOfBounds)
      else if rx_buf_idx s < length (rx_buf s)
        then Inr (rx_buf s ! rx_buf_idx s, s\<lparr>rx_buf_idx := Suc (rx_buf_idx s)\<rparr>)
        else Inl OutOfBounds)"

section \<open>Vocabulary of the properties\<close>

text \<open>
  \<open>drives h h' c d r cs\<close>: from the bus state \<open>h\<close> to \<open>h'\<close> the configuration of the
  pins is unchanged, the clock is left at level \<open>c\<close> and the data line at \<open>d\<close>, the data
  line has been sampled \<open>r\<close> times and the primitives \<open>cs\<close> have completed, in this order.
\<close>

definition drives :: "bus \<Rightarrow> bus \<Rightarrow> bool \<Rightarrow> bool \<Rightarrow> nat \<Rightarrow> call list \<Rightarrow> bool" where
  "drives h h' c d r cs \<longleftrightarrow>
     i2c_delay h' = i2c_delay h \<and> scl_pin h' = scl_pin h \<and> sda_pin h' = sda_pin h \<and>
     scl_mode h' = scl_mode h \<and> sda_mode h' = sda_mode h \<and>
     scl_out h' = c \<and> sda_out h' = d \<and>
     sda_reads h' = sda_reads h + r \<and> calls h' = calls h @ cs"

text \<open>A slave that ends every clock stretch: after any read of SCL a later one is high.\<close>

definition released :: "slave \<Rightarrow> bool" where
  "released env = (\<forall>t. \<exists>n. env SCL (t + n))"

text \<open>
  What \<^verbatim>\<open>process\<close> leaves alone in the object: the indices and flags of the buffers,
  the address, direction, length and data pointer of the message, and the sizes of the
  buffers.
\<close>

definition frame :: "softwire \<Rightarrow> softwire \<Rightarrow> bool" where
  "frame s s' \<longleftrightarrow>
     rx_buf_idx s' = rx_buf_idx s \<and> rx_buf_len s' = rx_buf_len s \<and>
     tx_buf_idx s' = tx_buf_idx s \<and> tx_buf_overflow s' = tx_buf_overflow s \<and>
     addr (itc_msg s') = addr (itc_msg s) \<and> flags (itc_msg s') = flags (itc_msg s) \<and>
     length_m (itc_msg s') = length_m (itc_msg s) \<and> data (itc_msg s') = data (itc_msg s) \<and>
     length (rx_buf s') = length (rx_buf s) \<and> length (tx_buf s') = length (tx_buf s)"

section \<open>Example slaves and states\<close>

text \<open>
  Four slaves that never stretch the clock: \<open>quiet\<close> holds SDA low at every sample (it
  acknowledges everything), \<open>absent\<close> never pulls a line low, \<open>nacks_second\<close> acknowledges
  the address and one byte, \<open>talker\<close> acknowledges the address and then sends the bit
  pattern 10101010.
\<close>

definition quiet :: slave where
  "quiet p k = (p = SCL)"

definition absent :: slave where
  "absent p k = True"

definition nacks_second :: slave where
  "nacks_second p k = (p = SCL \<or> 2 \<le> k)"

definition talker :: slave where
  "talker p k = (p = SCL \<or> odd k)"

definition idle_bus :: bus where
  "idle_bus = \<lparr>i2c_delay = 3, scl_pin = 22, sda_pin = 23, scl_out = True, sda_out = True,
     scl_mode = OUTPUT_OPEN_DRAIN, sda_mode = OUTPUT_OPEN_DRAIN, scl_reads = 0,
     sda_reads = 0, nops = 0, calls = []\<rparr>"

text \<open>An object with buffers of four bytes, as \<^verbatim>\<open>begin\<close> leaves it.\<close>

definition fresh :: softwire where
  "fresh = \<lparr>itc_msg = \<lparr>addr = 0, flags = 0, length_m = 0, xferred = 0, data = TxPtr 0\<rparr>,
     rx_buf = [0, 0, 0, 0], rx_buf_idx = 0, rx_buf_len = 0,
     tx_buf = [0, 0, 0, 0], tx_buf_idx = 0, tx_buf_overflow = False, port = idle_bus\<rparr>"

text \<open>After \<^verbatim>\<open>beginTransmission(80)\<close> and three, four and five staged bytes.\<close>

definition staged :: softwire where
  "staged = fresh\<lparr>itc_msg := \<lparr>addr = 80, flags = 0, length_m = 3, xferred = 0, data = TxPtr 0\<rparr>,
     tx_buf := [1, 2, 3, 0], tx_buf_idx := 3\<rparr>"

definition full :: softwire where
  "full = fresh\<lparr>itc_msg := \<lparr>addr = 80, flags = 0, length_m = 4, xferred = 0, data = TxPtr 0\<rparr>,
     tx_buf := [1, 2, 3, 4], tx_buf_idx := 4\<rparr>"

definition stuck :: softwire where
  "stuck = full\<lparr>tx_buf_overflow := True\<rparr>"

text \<open>A read of two bytes from address 80, as \<^verbatim>\<open>requestFrom\<close> sets it up.\<close>

definition asking :: softwire where
  "asking = fresh\<lparr>itc_msg :=
     \<lparr>addr = 80, flags = I2C_MSG_READ, length_m = 2, xferred = 0, data = RxPtr 0\<rparr>\<rparr>"

text \<open>Three bytes received, two of them consumed; and all three consumed.\<close>

definition received :: softwire where
  "received = fresh\<lparr>rx_buf := [7, 8, 9, 0], rx_buf_idx := 2, rx_buf_len := 3\<rparr>"

definition drained :: softwire where
  "drained = fresh\<lparr>rx_buf := [7, 8, 9, 0], rx_buf_idx := 3, rx_buf_len := 3\<rparr>"

text \<open>The bus after the address of \<open>staged\<close> has met no acknowledge.\<close>

definition bus_nack_addr :: bus where
  "bus_nack_addr = idle_bus\<lparr>scl_reads := 10, sda_reads := 1, nops := 99,
     calls := [Start, ShiftOut 160, GetAck False, Stop]\<rparr>"

text \<open>The object \<open>staged\<close> after \<^verbatim>\<open>begin\<close>: indices reset, both lines written high.\<close>

definition began :: softwire where
  "began = fresh\<lparr>tx_buf := [1, 2, 3, 0],
     itc_msg := \<lparr>addr = 80, flags = 0, length_m = 3, xferred = 0, data = TxPtr 0\<rparr>,
     port := idle_bus\<lparr>scl_reads := 1, nops := 6\<rparr>\<rparr>"

text \<open>
  The object \<open>fresh\<close> after \<^verbatim>\<open>requestFrom(80, 2)\<close> to the slave \<open>quiet\<close>, which sends
  two zero bytes; and after one \<^verbatim>\<open>read\<close> more: two bytes received, one consumed.
\<close>

definition got_two :: softwire where
  "got_two = fresh\<lparr>itc_msg := \<lparr>addr = 80, flags = 0, length_m = 2, xferred = 2, data = RxPtr 0\<rparr>,
     rx_buf_len := 2,
     port := idle_bus\<lparr>scl_reads := 28, sda_reads := 17, nops := 219,
       calls := [Start, ShiftOut 161, GetAck True, ShiftIn 0, SendAck, ShiftIn 0, SendNack,
                 Stop]\<rparr>\<rparr>"

definition half_read :: softwire where
  "half_read = got_two\<lparr>rx_buf_idx := 1\<rparr>"

text \<open>
  The bus after the second byte of \<open>staged\<close> has met no acknowledge, after all of
  \<open>staged\<close> has been sent with a repeated start, and after the two bytes of \<open>asking\<close>
  have been read.
\<close>

definition bus_nack_data :: bus where
  "bus_nack_data = idle_bus\<lparr>scl_reads := 28, sda_reads := 3, nops := 267,
     calls := [Start, ShiftOut 160, GetAck True, ShiftOut 1, GetAck True,
               ShiftOut 2, GetAck False, Stop]\<rparr>"

definition bus_sent_all :: bus where
  "bus_sent_all = idle_bus\<lparr>sda_out := False, scl_reads := 37, sda_reads := 4, nops := 351,
     calls := [Start, ShiftOut 160, GetAck True, ShiftOut 1, GetAck True,
               ShiftOut 2, GetAck True, ShiftOut 3, GetAck True, RepeatedStart]\<rparr>"

definition bus_read_two :: bus where
  "bus_read_two = idle_bus\<lparr>scl_reads := 28, sda_reads := 17, nops := 219,
     calls := [Start, ShiftOut 161, GetAck True, ShiftIn 170, SendAck,
               ShiftIn 170, SendNack, Stop]\<rparr>"

section \<open>The bus primitives\<close>

lemma drives_trans:
  "drives h h1 c d r cs \<Longrightarrow> drives h1 h2 c' d' r' cs' \<Longrightarrow> drives h h2 c' d' (r + r') (cs @ cs')"
  by (simp add: drives_def)

lemma drives_refl: "drives h h (scl_out h) (sda_out h) 0 []"
  by (simp add: drives_def)

lemma scl_wait_drives:
  "scl_wait env h = Some h' \<Longrightarrow> drives h h' (scl_out h) (sda_out h) 0 []"
  apply (erule scl_wait.raw_induct [rotated])
  apply (auto simp: digitalReadFast_def drives_def split: if_splits)
  done

lemma set_scl_drives:
  "set_scl env b h = Some h' \<Longrightarrow> drives h h' b (sda_out h) 0 []"
  by (auto simp: set_scl_def Let_def I2C_Delay_def digitalWriteFast_def drives_def
      split: if_splits dest!: scl_wait_drives)

lemma set_sda_sel [simp]:
  "i2c_delay (set_sda b h) = i2c_delay h" "scl_pin (set_sda b h) = scl_pin h"
  "sda_pin (set_sda b h) = sda_pin h" "scl_mode (set_sda b h) = scl_mode h"
  "sda_mode (set_sda b h) = sda_mode h" "scl_out (set_sda b h) = scl_out h"
  "sda_out (set_sda b h) = b" "sda_reads (set_sda b h) = sda_reads h"
  "scl_reads (set_sda b h) = scl_reads h" "calls (set_sda b h) = calls h"
  by (simp_all add: set_sda_def I2C_Delay_def digitalWriteFast_def)

lemma logc_sel [simp]:
  "i2c_delay (logc c h) = i2c_delay h" "scl_pin (logc c h) = scl_pin h"
  "sda_pin (logc c h) = sda_pin h" "scl_mode (logc c h) = scl_mode h"
  "sda_mode (logc c h) = sda_mode h" "scl_out (logc c h) = scl_out h"
  "sda_out (logc c h) = sda_out h" "sda_reads (logc c h) = sda_reads h"
  "scl_reads (logc c h) = scl_reads h" "calls (logc c h) = calls h @ [c]"
  "nops (logc c h) = nops h"
  by (simp_all add: logc_def)

lemma scl_wait_total_aux:
  "env SCL (scl_reads h + n) \<Longrightarrow> \<exists>h'. scl_wait env h = Some h'"
proof (induction n arbitrary: h)
  case 0
  then show ?case by (subst scl_wait.simps) (simp add: digitalReadFast_def)
next
  case (Suc n)
  have "env SCL (scl_reads (h\<lparr>scl_reads := Suc (scl_reads h)\<rparr>) + n)"
    using Suc.prems by simp
  from Suc.IH [OF this] show ?case
    by (subst scl_wait.simps) (auto simp: digitalReadFast_def)
qed

lemma scl_wait_total: "released env \<Longrightarrow> \<exists>h'. scl_wait env h = Some h'"
  unfolding released_def using scl_wait_total_aux by blast

lemma set_scl_total: "released env \<Longrightarrow> \<exists>h'. set_scl env b h = Some h'"
  by (simp add: set_scl_def Let_def scl_wait_total)

lemma i2c_start_drives:
  "i2c_start env h = Some h' \<Longrightarrow> drives h h' False False 0 [Start]"
  by (auto simp: i2c_start_def bind_eq_Some_conv drives_def dest!: set_scl_drives)

lemma i2c_stop_drives:
  "i2c_stop env h = Some h' \<Longrightarrow> drives h h' True True 0 [Stop]"
  by (auto simp: i2c_stop_def bind_eq_Some_conv drives_def dest!: set_scl_drives)

lemma i2c_repeated_start_drives:
  "i2c_repeated_start env h = Some h' \<Longrightarrow> drives h h' True False 0 [RepeatedStart]"
  by (auto simp: i2c_repeated_start_def bind_eq_Some_conv drives_def dest!: set_scl_drives)

lemma i2c_send_ack_drives:
  "i2c_send_ack env h = Some h' \<Longrightarrow> drives h h' False False 0 [SendAck]"
  by (auto simp: i2c_send_ack_def bind_eq_Some_conv drives_def dest!: set_scl_drives)

lemma i2c_send_nack_drives:
  "i2c_send_nack env h = Some h' \<Longrightarrow> drives h h' False True 0 [SendNack]"
  by (auto simp: i2c_send_nack_def bind_eq_Some_conv drives_def dest!: set_scl_drives)

lemma i2c_get_ack_drives:
  "i2c_get_ack env h = Some (a, h') \<Longrightarrow>
     a = (\<not> env SDA (sda_reads h)) \<and> drives h h' False True 1 [GetAck a]"
  by (auto simp: i2c_get_ack_def bind_eq_Some_conv drives_def digitalReadFast_def
      dest!: set_scl_drives)

lemma shift_out_loop_drives:
  "shift_out_loop env v i h = Some h' \<Longrightarrow> \<exists>c d. drives h h' c d 0 []"
proof (induction env v i h rule: shift_out_loop.induct)
  case (1 env val i h)
  show ?case
  proof (cases "i < 8")
    case True
    with "1.prems" obtain h1 h2 where
      a: "set_scl env True (set_sda (bit val (7 - i)) h) = Some h1"
      and b: "set_scl env False h1 = Some h2"
      and c: "shift_out_loop env val (Suc i) h2 = Some h'"
      by (subst (asm) shift_out_loop.simps) (auto simp: bind_eq_Some_conv)
    from "1.IH" [OF True a b c] obtain c' d' where "drives h2 h' c' d' 0 []" by blast
    with set_scl_drives [OF a] set_scl_drives [OF b] show ?thesis
      by (auto simp: drives_def)
  next
    case False
    with "1.prems" show ?thesis
      by (subst (asm) shift_out_loop.simps) (auto simp: drives_def)
  qed
qed

lemma i2c_shift_out_drives:
  "i2c_shift_out env v h = Some h' \<Longrightarrow> \<exists>c d. drives h h' c d 0 [ShiftOut v]"
  by (auto simp: i2c_shift_out_def bind_eq_Some_conv drives_def dest!: shift_out_loop_drives)

lemma shift_in_loop_step:
  "i < 8 \<Longrightarrow> shift_in_loop env i d h = do {
     h1 \<leftarrow> set_scl env True h;
     h3 \<leftarrow> set_scl env False (h1\<lparr>sda_reads := Suc (sda_reads h1)\<rparr>);
     shift_in_loop env (Suc i) (d OR (if env SDA (sda_reads h1) then push_bit (7 - i) 1 else 0)) h3 }"
  by (subst shift_in_loop.simps) (simp add: digitalReadFast_def)

lemma shift_in_loop_done: "\<not> i < 8 \<Longrightarrow> shift_in_loop env i d h = Some (d, h)"
  by (subst shift_in_loop.simps) simp

lemma shift_in_loop_drives:
  "shift_in_loop env i d h = Some (b, h') \<Longrightarrow> \<exists>c. drives h h' c (sda_out h) (8 - i) []"
proof (induction "8 - i" arbitrary: i d h)
  case 0
  then show ?case by (auto simp: shift_in_loop_done drives_def)
next
  case (Suc n)
  then have lt: "i < 8" by simp
  with Suc.prems obtain h1 h3 where
    a: "set_scl env True h = Some h1"
    and b: "set_scl env False (h1\<lparr>sda_reads := Suc (sda_reads h1)\<rparr>) = Some h3"
    and c: "shift_in_loop env (Suc i)
              (d OR (if env SDA (sda_reads h1) then push_bit (7 - i) 1 else 0)) h3 = Some (b, h')"
    by (auto simp: shift_in_loop_step bind_eq_Some_conv)
  have "n = 8 - Suc i" using Suc.hyps(2) by simp
  from Suc.hyps(1) [OF this c] obtain c' where "drives h3 h' c' (sda_out h3) (8 - Suc i) []"
    by blast
  with set_scl_drives [OF a] set_scl_drives [OF b] lt show ?case
    by (auto simp: drives_def)
qed

lemma i2c_shift_in_drives:
  "i2c_shift_in env h = Some (b, h') \<Longrightarrow> \<exists>c. drives h h' c True 8 [ShiftIn b]"
  by (auto simp: i2c_shift_in_def bind_eq_Some_conv drives_def dest!: shift_in_loop_drives)


subsection \<open>Termination of the primitives\<close>

lemma bind_total:
  "\<exists>y. m = Some y \<Longrightarrow> (\<And>y. m = Some y \<Longrightarrow> \<exists>z. f y = Some z) \<Longrightarrow> \<exists>z. Option.bind m f = Some z"
  by auto

lemma i2c_start_total: "released env \<Longrightarrow> \<exists>h'. i2c_start env h = Some h'"
  unfolding i2c_start_def by (intro bind_total set_scl_total) simp_all

lemma i2c_stop_total: "released env \<Longrightarrow> \<exists>h'. i2c_stop env h = Some h'"
  unfolding i2c_stop_def by (intro bind_total set_scl_total) simp_all

lemma i2c_repeated_start_total: "released env \<Longrightarrow> \<exists>h'. i2c_repeated_start env h = Some h'"
  unfolding i2c_repeated_start_def by (intro bind_total set_scl_total) simp_all

lemma i2c_send_ack_total: "released env \<Longrightarrow> \<exists>h'. i2c_send_ack env h = Some h'"
  unfolding i2c_send_ack_def by (intro bind_total set_scl_total) simp_all

lemma i2c_send_nack_total: "released env \<Longrightarrow> \<exists>h'. i2c_send_nack env h = Some h'"
  unfolding i2c_send_nack_def by (intro bind_total set_scl_total) simp_all

lemma i2c_get_ack_total: "released env \<Longrightarrow> \<exists>r. i2c_get_ack env h = Some r"
proof -
  assume r: "released env"
  obtain h1 where a: "set_scl env False h = Some h1"
    using set_scl_total [OF r] by blast
  obtain h2 where b: "set_scl env True (set_sda True h1) = Some h2"
    using set_scl_total [OF r] by blast
  obtain h4 where c: "set_scl env False (h2\<lparr>sda_reads := Suc (sda_reads h2)\<rparr>) = Some h4"
    using set_scl_total [OF r] by blast
  show ?thesis
    by (simp add: i2c_get_ack_def digitalReadFast_def a b c)
qed

lemma shift_out_loop_step:
  "i < 8 \<Longrightarrow> shift_out_loop env v i h = do {
     h1 \<leftarrow> set_scl env True (set_sda (bit v (7 - i)) h);
     h2 \<leftarrow> set_scl env False h1;
     shift_out_loop env v (Suc i) h2 }"
  by (subst shift_out_loop.simps) simp

lemma shift_out_loop_done: "\<not> i < 8 \<Longrightarrow> shift_out_loop env v i h = Some h"
  by (subst shift_out_loop.simps) simp

lemma shift_out_loop_total:
  "released env \<Longrightarrow> \<exists>h'. shift_out_loop env v i h = Some h'"
proof (induction "8 - i" arbitrary: i h)
  case 0
  then show ?case by (simp add: shift_out_loop_done)
next
  case (Suc n)
  then have lt: "i < 8" and n: "n = 8 - Suc i" by simp_all
  show ?case
    unfolding shift_out_loop_step [OF lt]
    by (intro bind_total set_scl_total Suc.hyps(1) [OF n] Suc.prems)
qed

lemma i2c_shift_out_total: "released env \<Longrightarrow> \<exists>h'. i2c_shift_out env v h = Some h'"
  unfolding i2c_shift_out_def by (intro bind_total shift_out_loop_total) simp_all

lemma shift_in_loop_total:
  "released env \<Longrightarrow> \<exists>r. shift_in_loop env i d h = Some r"
proof (induction "8 - i" arbitrary: i d h)
  case 0
  then show ?case by (simp add: shift_in_loop_done)
next
  case (Suc n)
  then have lt: "i < 8" and n: "n = 8 - Suc i" by simp_all
  show ?case
    unfolding shift_in_loop_step [OF lt]
    by (intro bind_total set_scl_total Suc.hyps(1) [OF n] Suc.prems)
qed

lemma i2c_shift_in_total: "released env \<Longrightarrow> \<exists>r. i2c_shift_in env h = Some r"
  unfolding i2c_shift_in_def by (intro bind_total shift_in_loop_total) auto

subsection \<open>The primitives under a slave that releases the clock\<close>

lemma i2c_start_run:
  assumes "released env"
  obtains h' where "i2c_start env h = Some h'" "drives h h' False False 0 [Start]"
  using i2c_start_total [OF assms] i2c_start_drives by blast

lemma i2c_stop_run:
  assumes "released env"
  obtains h' where "i2c_stop env h = Some h'" "drives h h' True True 0 [Stop]"
  using i2c_stop_total [OF assms] i2c_stop_drives by blast

lemma i2c_repeated_start_run:
  assumes "released env"
  obtains h' where "i2c_repeated_start env h = Some h'" "drives h h' True False 0 [RepeatedStart]"
  using i2c_repeated_start_total [OF assms] i2c_repeated_start_drives by blast

lemma i2c_send_ack_run:
  assumes "released env"
  obtains h' where "i2c_send_ack env h = Some h'" "drives h h' False False 0 [SendAck]"
  using i2c_send_ack_total [OF assms] i2c_send_ack_drives by blast

lemma i2c_send_nack_run:
  assumes "released env"
  obtains h' where "i2c_send_nack env h = Some h'" "drives h h' False True 0 [SendNack]"
  using i2c_send_nack_total [OF assms] i2c_send_nack_drives by blast

lemma i2c_get_ack_run:
  assumes "released env"
  obtains h' where "i2c_get_ack env h = Some (\<not> env SDA (sda_reads h), h')"
    "drives h h' False True 1 [GetAck (\<not> env SDA (sda_reads h))]"
proof -
  from i2c_get_ack_total [OF assms] obtain a h' where r: "i2c_get_ack env h = Some (a, h')"
    by fastforce
  from i2c_get_ack_drives [OF r] r that show thesis by blast
qed

lemma i2c_shift_out_run:
  assumes "released env"
  obtains h' c d where "i2c_shift_out env v h = Some h'" "drives h h' c d 0 [ShiftOut v]"
  using i2c_shift_out_total [OF assms] i2c_shift_out_drives by blast

lemma i2c_shift_in_run:
  assumes "released env"
  obtains b h' c where "i2c_shift_in env h = Some (b, h')" "drives h h' c True 8 [ShiftIn b]"
proof -
  from i2c_shift_in_total [OF assms] obtain b h' where r: "i2c_shift_in env h = Some (b, h')"
    by fastforce
  from i2c_shift_in_drives [OF r] r that show thesis by blast
qed

subsection \<open>Evaluation on a slave that does not stretch the clock\<close>

lemma scl_wait_high:
  "env SCL (scl_reads h) \<Longrightarrow> scl_wait env h = Some (h\<lparr>scl_reads := Suc (scl_reads h)\<rparr>)"
  by (subst scl_wait.simps) (simp add: digitalReadFast_def)

lemmas bus_eval = scl_wait_high set_scl_def set_sda_def I2C_Delay_def digitalWriteFast_def
  digitalReadFast_def logc_def i2c_start_def i2c_stop_def i2c_repeated_start_def
  i2c_get_ack_def i2c_send_ack_def i2c_send_nack_def i2c_shift_in_def i2c_shift_out_def
  shift_in_loop.simps shift_out_loop.simps Let_def

lemmas wire_eval = process_def process_legacy_def finish_def sla_addr_def set_xferred_def
  load_data_def store_data_def I2C_READ_def I2C_MSG_READ_def

section \<open>The buffers of WireBase\<close>

lemma write_buf_sticky:
  "tx_buf_overflow s \<Longrightarrow> write_buf cap bs s = Inr s' \<Longrightarrow> tx_buf_overflow s'"
proof (induction bs arbitrary: s)
  case Nil
  then show ?case by simp
next
  case (Cons b bs)
  from Cons.prems obtain s1 where w: "WireBase_write cap b s = Inr s1"
    and r: "write_buf cap bs s1 = Inr s'"
    by (auto split: sum.splits)
  from w Cons.prems(1) have "tx_buf_overflow s1"
    by (auto simp: WireBase_write_def split: if_splits)
  from Cons.IH [OF this r] show ?case .
qed

lemma endTransmission_resets:
  assumes "\<not> tx_buf_overflow s" "endTransmission env s = Some (Inr (st, s2))"
  shows "tx_buf_idx s2 = 0 \<and> \<not> tx_buf_overflow s2"
proof -
  from assms obtain r where "process_legacy env s = Some r"
    and r: "(case r of Inl e \<Rightarrow> Some (Inl e)
             | Inr (stat, s1) \<Rightarrow> Some (Inr (stat, s1\<lparr>tx_buf_idx := 0, tx_buf_overflow := False\<rparr>)))
            = Some (Inr (st, s2))"
    by (auto simp: endTransmission_def bind_eq_Some_conv)
  from r show ?thesis
    by (cases r) auto
qed

lemma available_word:
  "available s = word_of_nat (rx_buf_len s) - word_of_nat (rx_buf_idx s)"
  unfolding available_def by (simp only: of_int_diff of_int_of_nat_eq)

lemma available_unat:
  assumes "rx_buf_idx s \<le> rx_buf_len s" "rx_buf_len s - rx_buf_idx s < 256"
  shows "unat (available s) = rx_buf_len s - rx_buf_idx s"
proof -
  have "available s = word_of_nat (rx_buf_len s - rx_buf_idx s)"
    unfolding available_word using assms(1) by (simp only: of_nat_diff)
  then have "unat (available s) = (rx_buf_len s - rx_buf_idx s) mod 256"
    by (simp only: unat_of_nat) simp
  with assms(2) show ?thesis by simp
qed

section \<open>The transaction\<close>

subsection \<open>What every return of the loops and of process satisfies\<close>

lemma frame_refl: "frame s s"
  by (simp add: frame_def)

lemma frame_trans: "frame s s1 \<Longrightarrow> frame s1 s2 \<Longrightarrow> frame s s2"
  by (simp add: frame_def)

lemma frame_port: "frame s (s\<lparr>port := h\<rparr>)"
  by (simp add: frame_def)

lemma frame_set_xferred: "frame s (set_xferred n s)"
  by (simp add: frame_def set_xferred_def)

lemma frame_store_data: "store_data s i v = Inr s1 \<Longrightarrow> frame s s1 \<and> port s1 = port s \<and> xferred (itc_msg s1) = xferred (itc_msg s)"
  by (auto simp: store_data_def frame_def split: bufptr.splits if_splits)

lemma port_set_xferred [simp]: "port (set_xferred n s) = port s"
  by (simp add: set_xferred_def)

lemma sla_addr_xferred [simp]: "sla_addr (itc_msg (set_xferred n s)) = sla_addr (itc_msg s)"
  by (simp add: sla_addr_def set_xferred_def)

lemma itc_msg_set_xferred [simp]:
  "flags (itc_msg (set_xferred n s)) = flags (itc_msg s)"
  "length_m (itc_msg (set_xferred n s)) = length_m (itc_msg s)"
  "data (itc_msg (set_xferred n s)) = data (itc_msg s)"
  "addr (itc_msg (set_xferred n s)) = addr (itc_msg s)"
  "xferred (itc_msg (set_xferred n s)) = n"
  by (simp_all add: set_xferred_def)

text \<open>The receiving loop changes the buffers only through the data pointer.\<close>

lemma read_loop_frame_aux:
  "read_loop env s = Some y \<Longrightarrow>
     \<forall>s'. y = Inr s' \<longrightarrow> frame s s' \<and> (\<exists>c d q cs. drives (port s) (port s') c d q cs)"
  apply (erule read_loop.raw_induct [rotated])
  subgoal premises prems for rl env s y
  proof (intro allI impI)
    fix s'
    assume y: "y = Inr s'"
    note IH = prems(1)
    note body = prems(2)
    show "frame s s' \<and> (\<exists>c d q cs. drives (port s) (port s') c d q cs)"
    proof (cases "xferred (itc_msg s) < length_m (itc_msg s)")
      case False
      with body y have "s' = s" by simp
      then show ?thesis using frame_refl drives_refl by blast
    next
      case True
      with body obtain d h1 where
        si: "i2c_shift_in env (port s) = Some (d, h1)"
        and k: "(case store_data s (xferred (itc_msg s)) d of
           Inl e \<Rightarrow> Some (Inl e)
         | Inr s1 \<Rightarrow> do {
             let s2 = set_xferred (Suc (xferred (itc_msg s1))) s1;
             h2 \<leftarrow> (if xferred (itc_msg s2) < length_m (itc_msg s2)
                    then i2c_send_ack env h1 else i2c_send_nack env h1);
             rl env (s2\<lparr>port := h2\<rparr>) }) = Some y"
        by (auto simp: bind_eq_Some_conv)
      from k y obtain s1 where st: "store_data s (xferred (itc_msg s)) d = Inr s1"
        by (cases "store_data s (xferred (itc_msg s)) d") auto
      with k y obtain h2 where
        ak: "(if xferred (itc_msg (set_xferred (Suc (xferred (itc_msg s1))) s1))
                      < length_m (itc_msg (set_xferred (Suc (xferred (itc_msg s1))) s1))
                  then i2c_send_ack env h1 else i2c_send_nack env h1) = Some h2"
        and rc: "rl env ((set_xferred (Suc (xferred (itc_msg s1))) s1)\<lparr>port := h2\<rparr>) = Some (Inr s')"
        by (auto simp: bind_eq_Some_conv Let_def)
      let ?s3 = "(set_xferred (Suc (xferred (itc_msg s1))) s1)\<lparr>port := h2\<rparr>"
      from IH [OF rc] have f3: "frame ?s3 s'"
        and d3: "\<exists>c d q cs. drives h2 (port s') c d q cs"
        by auto
      from frame_store_data [OF st] have "frame s s1" by simp
      then have "frame s ?s3"
        by (simp add: frame_def set_xferred_def)
      from this f3 have fr: "frame s s'" by (rule frame_trans)
      from i2c_shift_in_drives [OF si] obtain c1 where
        d1: "drives (port s) h1 c1 True 8 [ShiftIn d]" by blast
      from ak have "\<exists>c d cs. drives h1 h2 c d 0 cs"
        by (auto split: if_splits dest: i2c_send_ack_drives i2c_send_nack_drives)
      with d1 d3 have "\<exists>c d q cs. drives (port s) (port s') c d q cs"
        by (blast intro: drives_trans)
      with fr show ?thesis by simp
    qed
  qed
  done

lemma read_loop_frame:
  "read_loop env s = Some (Inr s') \<Longrightarrow>
     frame s s' \<and> (\<exists>c d q cs. drives (port s) (port s') c d q cs)"
  using read_loop_frame_aux [of env s "Inr s'"] by simp

text \<open>
  The sending loop leaves the buffers alone. When it returns a status, that status is
  \<^verbatim>\<open>I2C_NACK_DATA\<close> and the last primitive was a stop condition.
\<close>

lemma write_loop_frame_aux:
  "write_loop env i s = Some y \<Longrightarrow>
     \<forall>r s'. y = Inr (r, s') \<longrightarrow>
       frame s s' \<and> tx_buf s' = tx_buf s \<and> rx_buf s' = rx_buf s \<and>
       (\<exists>c d q cs. drives (port s) (port s') c d q cs \<and>
          (r \<noteq> None \<longrightarrow> r = Some I2C_NACK_DATA \<and> c \<and> d \<and> (\<exists>cs0. cs = cs0 @ [Stop])))"
  apply (erule write_loop.raw_induct [rotated])
  subgoal premises prems for wl env i s y
  proof (intro allI impI)
    fix r s'
    assume y: "y = Inr (r, s')"
    note IH = prems(1)
    note body = prems(2)
    let ?Q = "\<lambda>s r s'. frame s s' \<and> tx_buf s' = tx_buf s \<and> rx_buf s' = rx_buf s \<and>
       (\<exists>c d q cs. drives (port s) (port s') c d q cs \<and>
          (r \<noteq> None \<longrightarrow> r = Some I2C_NACK_DATA \<and> c \<and> d \<and> (\<exists>cs0. cs = cs0 @ [Stop])))"
    show "?Q s r s'"
    proof (cases "unat i < length_m (itc_msg s)")
      case False
      with body y have "s' = s" "r = None" by simp_all
      then show ?thesis using frame_refl drives_refl by blast
    next
      case True
      with body have k: "(case load_data s (unat i) of
           Inl e \<Rightarrow> Some (Inl e)
         | Inr v \<Rightarrow> do {
             h1 \<leftarrow> i2c_shift_out env v (port s);
             (ack, h2) \<leftarrow> i2c_get_ack env h1;
             if \<not> ack then do {
               h3 \<leftarrow> i2c_stop env h2;
               Some (Inr (Some I2C_NACK_DATA, s\<lparr>port := h3\<rparr>)) }
             else wl env (i + 1)
                    (set_xferred (Suc (xferred (itc_msg s))) (s\<lparr>port := h2\<rparr>)) }) = Some y"
        by simp
      from k y obtain v where ld: "load_data s (unat i) = Inr v"
        by (cases "load_data s (unat i)") auto
      with k y obtain h1 ack h2 where
        so: "i2c_shift_out env v (port s) = Some h1"
        and ga: "i2c_get_ack env h1 = Some (ack, h2)"
        and rest: "(if \<not> ack then do {
               h3 \<leftarrow> i2c_stop env h2;
               Some (Inr (Some I2C_NACK_DATA, s\<lparr>port := h3\<rparr>)) }
             else wl env (i + 1)
                    (set_xferred (Suc (xferred (itc_msg s))) (s\<lparr>port := h2\<rparr>))) = Some (Inr (r, s'))"
        by (auto simp: bind_eq_Some_conv)
      from i2c_shift_out_drives [OF so] obtain c1 d1 where
        d1: "drives (port s) h1 c1 d1 0 [ShiftOut v]" by blast
      from i2c_get_ack_drives [OF ga] have
        d2: "drives h1 h2 False True 1 [GetAck ack]" by blast
      note d12 = drives_trans [OF d1 d2]
      show ?thesis
      proof (cases ack)
        case False
        with rest obtain h3 where sp: "i2c_stop env h2 = Some h3"
          and r: "r = Some I2C_NACK_DATA" and s': "s' = s\<lparr>port := h3\<rparr>"
          by (auto simp: bind_eq_Some_conv)
        from drives_trans [OF d12 i2c_stop_drives [OF sp]]
        have dd: "drives (port s) h3 True True (0 + 1 + 0) (([ShiftOut v] @ [GetAck ack]) @ [Stop])" .
        have "\<exists>c d q cs. drives (port s) h3 c d q cs \<and>
          (r \<noteq> None \<longrightarrow> r = Some I2C_NACK_DATA \<and> c \<and> d \<and> (\<exists>cs0. cs = cs0 @ [Stop]))"
          using dd r by blast
        with s' show ?thesis
          by (simp add: frame_def)
      next
        case True
        let ?s2 = "set_xferred (Suc (xferred (itc_msg s))) (s\<lparr>port := h2\<rparr>)"
        from True rest have "wl env (i + 1) ?s2 = Some (Inr (r, s'))" by simp
        from IH [OF this] have q: "?Q ?s2 r s'" by simp
        then obtain c d q cs where
          d3: "drives h2 (port s') c d q cs"
          and fin: "r \<noteq> None \<longrightarrow> r = Some I2C_NACK_DATA \<and> c \<and> d \<and> (\<exists>cs0. cs = cs0 @ [Stop])"
          by auto
        from q have "frame ?s2 s'" "tx_buf s' = tx_buf s" "rx_buf s' = rx_buf s"
          by (simp_all add: set_xferred_def)
        moreover have "frame s ?s2" by (simp add: frame_def set_xferred_def)
        ultimately have fr: "frame s s' \<and> tx_buf s' = tx_buf s \<and> rx_buf s' = rx_buf s"
          using frame_trans by blast
        from drives_trans [OF d12 d3] fin
        have "\<exists>c d q cs. drives (port s) (port s') c d q cs \<and>
          (r \<noteq> None \<longrightarrow> r = Some I2C_NACK_DATA \<and> c \<and> d \<and> (\<exists>cs0. cs = cs0 @ [Stop]))"
          by (metis append.assoc)
        with fr show ?thesis by simp
      qed
    qed
  qed
  done

lemma write_loop_frame:
  "write_loop env i s = Some (Inr (r, s')) \<Longrightarrow>
     frame s s' \<and> tx_buf s' = tx_buf s \<and> rx_buf s' = rx_buf s \<and>
     (\<exists>c d q cs. drives (port s) (port s') c d q cs \<and>
        (r \<noteq> None \<longrightarrow> r = Some I2C_NACK_DATA \<and> c \<and> d \<and> (\<exists>cs0. cs = cs0 @ [Stop])))"
  using write_loop_frame_aux [of env i s "Inr (r, s')"] by simp

lemma finish_drives:
  assumes "finish env stop s1 = Some (Inr (st, s'))"
  shows "st = I2C_OK \<and> frame s1 s' \<and> tx_buf s' = tx_buf s1 \<and> rx_buf s' = rx_buf s1 \<and>
     xferred (itc_msg s') = xferred (itc_msg s1) \<and>
     drives (port s1) (port s') True (stop = 1) 0 [if stop = 1 then Stop else RepeatedStart]"
proof -
  from assms obtain h where
    h: "(if stop = 1 then i2c_stop env (port s1) else i2c_repeated_start env (port s1)) = Some h"
    and r: "st = I2C_OK" "s' = s1\<lparr>port := h\<rparr>"
    by (auto simp: finish_def bind_eq_Some_conv)
  from h have "drives (port s1) h True (stop = 1) 0 [if stop = 1 then Stop else RepeatedStart]"
    by (auto split: if_splits dest: i2c_stop_drives i2c_repeated_start_drives)
  with r show ?thesis by (simp add: frame_def)
qed

lemma ex_mid:
  "drives h h' c d q (Start # a # mid @ [f]) \<Longrightarrow>
     \<exists>mid q. drives h h' c d q (Start # a # mid @ [f])"
  by blast

text \<open>
  Every return of \<^verbatim>\<open>process\<close>: the primitives completed are a start condition, the
  address byte, and at the end a stop or a repeated start; the clock is left high.
\<close>

lemma process_partial:
  assumes "process env stop s = Some (Inr (st, s'))"
  shows "frame s s' \<and> st \<noteq> I2C_DATA_TOO_LONG \<and>
     (\<exists>mid q. drives (port s) (port s') True (st \<noteq> I2C_OK \<or> stop = 1) q
        (Start # ShiftOut (sla_addr (itc_msg s)) # mid @
           [if st = I2C_OK \<and> stop \<noteq> 1 then RepeatedStart else Stop]))"
proof -
  let ?s = "set_xferred 0 s"
  let ?a = "sla_addr (itc_msg s)"
  have fs: "frame s ?s" by (rule frame_set_xferred)
  from assms obtain h1 h2 ack h3 where
    st: "i2c_start env (port s) = Some h1"
    and so: "i2c_shift_out env ?a h1 = Some h2"
    and ga: "i2c_get_ack env h2 = Some (ack, h3)"
    and rest: "(if \<not> ack then do {
          h4 \<leftarrow> i2c_stop env h3;
          Some (Inr (I2C_NACK_ADDR, ?s\<lparr>port := h4\<rparr>)) }
        else if flags (itc_msg ?s) = I2C_MSG_READ then do {
          r \<leftarrow> read_loop env (?s\<lparr>port := h3\<rparr>);
          (case r of Inl e \<Rightarrow> Some (Inl e) | Inr s1 \<Rightarrow> finish env stop s1) }
        else do {
          r \<leftarrow> write_loop env 0 (?s\<lparr>port := h3\<rparr>);
          (case r of
             Inl e \<Rightarrow> Some (Inl e)
           | Inr (Some st, s1) \<Rightarrow> Some (Inr (st, s1))
           | Inr (None, s1) \<Rightarrow> finish env stop s1) }) = Some (Inr (st, s'))"
    by (auto simp: process_def Let_def bind_eq_Some_conv)
  from i2c_shift_out_drives [OF so] obtain c2 d2 where
    d2: "drives h1 h2 c2 d2 0 [ShiftOut ?a]" by blast
  from i2c_get_ack_drives [OF ga] have d3: "drives h2 h3 False True 1 [GetAck ack]" by blast
  from drives_trans [OF drives_trans [OF i2c_start_drives [OF st] d2] d3]
  have d123: "drives (port s) h3 False True 1 [Start, ShiftOut ?a, GetAck ack]" by simp
  show ?thesis
  proof (cases ack)
    case False
    with rest obtain h4 where sp: "i2c_stop env h3 = Some h4"
      and r: "st = I2C_NACK_ADDR" "s' = ?s\<lparr>port := h4\<rparr>"
      by (auto simp: bind_eq_Some_conv)
    from drives_trans [OF d123 i2c_stop_drives [OF sp]]
    have "drives (port s) h4 True True 1 (Start # ShiftOut ?a # [GetAck ack] @ [Stop])" by simp
    from ex_mid [OF this] r show ?thesis
      by (simp add: frame_def set_xferred_def)
  next
    case True
    note ack = True
    show ?thesis
    proof (cases "flags (itc_msg ?s) = I2C_MSG_READ")
      case True
      with ack rest obtain r where rl: "read_loop env (?s\<lparr>port := h3\<rparr>) = Some r"
        and k: "(case r of Inl e \<Rightarrow> Some (Inl e) | Inr s1 \<Rightarrow> finish env stop s1)
                 = Some (Inr (st, s'))"
        by (auto simp: bind_eq_Some_conv)
      from k obtain s1 where r: "r = Inr s1" and fin: "finish env stop s1 = Some (Inr (st, s'))"
        by (cases r) auto
      from read_loop_frame [OF rl [unfolded r]] obtain c d q cs where
        f1: "frame (?s\<lparr>port := h3\<rparr>) s1" and dl: "drives h3 (port s1) c d q cs"
        by auto
      from finish_drives [OF fin] have ok: "st = I2C_OK" and f2: "frame s1 s'"
        and df: "drives (port s1) (port s') True (stop = 1) 0
                   [if stop = 1 then Stop else RepeatedStart]"
        by simp_all
      have "frame s (?s\<lparr>port := h3\<rparr>)" by (simp add: frame_def set_xferred_def)
      from frame_trans [OF frame_trans [OF this f1] f2] have fr: "frame s s'" .
      from drives_trans [OF drives_trans [OF d123 dl] df]
      have "drives (port s) (port s') True (stop = 1) (1 + q + 0)
              (Start # ShiftOut ?a # (GetAck ack # cs) @
                 [if stop = 1 then Stop else RepeatedStart])"
        by simp
      from ex_mid [OF this] ok fr show ?thesis by (cases "stop = 1") simp_all
    next
      case False
      with ack rest obtain r where wl: "write_loop env 0 (?s\<lparr>port := h3\<rparr>) = Some r"
        and k: "(case r of
             Inl e \<Rightarrow> Some (Inl e)
           | Inr (Some st, s1) \<Rightarrow> Some (Inr (st, s1))
           | Inr (None, s1) \<Rightarrow> finish env stop s1) = Some (Inr (st, s'))"
        by (auto simp: bind_eq_Some_conv)
      from k obtain ro s1 where r: "r = Inr (ro, s1)"
        by (cases r) auto
      from write_loop_frame [OF wl [unfolded r]] obtain c d q cs where
        f1: "frame (?s\<lparr>port := h3\<rparr>) s1" and dl: "drives h3 (port s1) c d q cs"
        and nk: "ro \<noteq> None \<longrightarrow> ro = Some I2C_NACK_DATA \<and> c \<and> d \<and> (\<exists>cs0. cs = cs0 @ [Stop])"
        by auto
      have f0: "frame s (?s\<lparr>port := h3\<rparr>)" by (simp add: frame_def set_xferred_def)
      show ?thesis
      proof (cases ro)
        case None
        with k r have fin: "finish env stop s1 = Some (Inr (st, s'))" by simp
        from finish_drives [OF fin] have ok: "st = I2C_OK" and f2: "frame s1 s'"
          and df: "drives (port s1) (port s') True (stop = 1) 0
                   [if stop = 1 then Stop else RepeatedStart]"
          by simp_all
        from frame_trans [OF frame_trans [OF f0 f1] f2] have fr: "frame s s'" .
        from drives_trans [OF drives_trans [OF d123 dl] df]
        have "drives (port s) (port s') True (stop = 1) (1 + q + 0)
              (Start # ShiftOut ?a # (GetAck ack # cs) @
                 [if stop = 1 then Stop else RepeatedStart])"
          by simp
        from ex_mid [OF this] ok fr show ?thesis by (cases "stop = 1") simp_all
      next
        case (Some st1)
        with k r have e: "st = st1" "s' = s1" by simp_all
        from Some nk have n1: "st1 = I2C_NACK_DATA" and n2: "c" and n3: "d"
          and "\<exists>cs0. cs = cs0 @ [Stop]"
          by simp_all
        then obtain cs0 where n4: "cs = cs0 @ [Stop]" by blast
        from drives_trans [OF d123 dl]
        have "drives (port s) (port s1) c d (1 + q) ([Start, ShiftOut ?a, GetAck ack] @ cs)" .
        then have "drives (port s) (port s1) True True (1 + q)
                (Start # ShiftOut ?a # (GetAck ack # cs0) @ [Stop])"
          unfolding n4 using n2 n3 by simp
        from ex_mid [OF this]
        have "\<exists>mid q. drives (port s) (port s') True True q
                (Start # ShiftOut ?a # mid @ [Stop])"
          unfolding e .
        moreover have "frame s s'"
          unfolding e using frame_trans [OF f0 f1] .
        moreover have "st = I2C_NACK_DATA"
          using e n1 by simp
        ultimately show ?thesis by simp
      qed
    qed
  qed
qed

lemma sla_addr_unat:
  assumes "unat (addr m) \<le> 127"
  shows "unat (sla_addr m) = 2 * unat (addr m) + (if flags m = I2C_MSG_READ then 1 else 0)"
proof -
  have lt: "2 * unat (addr m) < 2 ^ LENGTH(8)" using assms by simp
  have a: "unat (push_bit 1 (addr m)) = 2 * unat (addr m)"
    using lt by (simp add: push_bit_eq_mult unat_mult_lem [THEN iffD1] mult.commute)
  have ev: "even (push_bit 1 (addr m))" by (simp add: push_bit_eq_mult)
  have "push_bit 1 (addr m) OR 1 = push_bit 1 (addr m) + 1"
    using ev by (simp add: or_one_eq)
  moreover have "unat (push_bit 1 (addr m) + 1) = unat (push_bit 1 (addr m)) + 1"
    using a assms by (simp add: unat_add_lem [THEN iffD1])
  ultimately show ?thesis using a
    by (simp add: sla_addr_def Let_def I2C_READ_def)
qed

subsection \<open>Runs under a slave that releases the clock\<close>

lemma unat_u8_of_nat: "unat (word_of_nat x :: u8) = x mod 256"
  by (simp add: unat_of_nat)

text \<open>
  The address phase of \<^verbatim>\<open>process\<close> returns, and the acknowledge bit is the first
  sample of the data line.
\<close>

lemma address_phase:
  assumes "released env"
  obtains h3 where
    "(do { h1 \<leftarrow> i2c_start env (port s);
           h2 \<leftarrow> i2c_shift_out env a h1;
           i2c_get_ack env h2 }) = Some (\<not> env SDA (sda_reads (port s)), h3)"
    "drives (port s) h3 False True 1 [Start, ShiftOut a, GetAck (\<not> env SDA (sda_reads (port s)))]"
proof -
  from i2c_start_run [OF assms] obtain h1 where
    a: "i2c_start env (port s) = Some h1" and d1: "drives (port s) h1 False False 0 [Start]"
    by blast
  from i2c_shift_out_run [OF assms] obtain h2 c d where
    b: "i2c_shift_out env a h1 = Some h2" and d2: "drives h1 h2 c d 0 [ShiftOut a]"
    by blast
  from i2c_get_ack_run [OF assms] obtain h3 where
    c: "i2c_get_ack env h2 = Some (\<not> env SDA (sda_reads h2), h3)"
    and d3: "drives h2 h3 False True 1 [GetAck (\<not> env SDA (sda_reads h2))]"
    by blast
  have r: "sda_reads h2 = sda_reads (port s)"
    using d1 d2 by (simp add: drives_def)
  from drives_trans [OF drives_trans [OF d1 d2] d3]
  have "drives (port s) h3 False True 1 [Start, ShiftOut a, GetAck (\<not> env SDA (sda_reads (port s)))]"
    by (simp add: r)
  moreover have "(do { h1 \<leftarrow> i2c_start env (port s);
           h2 \<leftarrow> i2c_shift_out env a h1;
           i2c_get_ack env h2 }) = Some (\<not> env SDA (sda_reads (port s)), h3)"
    by (simp add: a b c r)
  ultimately show thesis using that by blast
qed

lemma process_assoc:
  "process env stop s0 =
     (let s = set_xferred 0 s0 in
      (do { h1 \<leftarrow> i2c_start env (port s0);
            h2 \<leftarrow> i2c_shift_out env (sla_addr (itc_msg s0)) h1;
            i2c_get_ack env h2 }) \<bind> (\<lambda>(ack, h3).
        if \<not> ack then do {
          h4 \<leftarrow> i2c_stop env h3;
          Some (Inr (I2C_NACK_ADDR, s\<lparr>port := h4\<rparr>)) }
        else if flags (itc_msg s) = I2C_MSG_READ then do {
          r \<leftarrow> read_loop env (s\<lparr>port := h3\<rparr>);
          (case r of Inl e \<Rightarrow> Some (Inl e) | Inr s1 \<Rightarrow> finish env stop s1) }
        else do {
          r \<leftarrow> write_loop env 0 (s\<lparr>port := h3\<rparr>);
          (case r of
             Inl e \<Rightarrow> Some (Inl e)
           | Inr (Some st, s1) \<Rightarrow> Some (Inr (st, s1))
           | Inr (None, s1) \<Rightarrow> finish env stop s1) }))"
  by (simp add: process_def Let_def)

lemma process_address_nack:
  assumes "released env" "env SDA (sda_reads (port s))"
  shows "\<exists>h. process env stop s =
            Some (Inr (I2C_NACK_ADDR, s\<lparr>itc_msg := (itc_msg s)\<lparr>xferred := 0\<rparr>, port := h\<rparr>)) \<and>
          drives (port s) h True True 1
            [Start, ShiftOut (sla_addr (itc_msg s)), GetAck False, Stop]"
proof -
  from address_phase [OF assms(1), of s "sla_addr (itc_msg s)"] assms(2) obtain h3 where
    a: "(do { h1 \<leftarrow> i2c_start env (port s);
           h2 \<leftarrow> i2c_shift_out env (sla_addr (itc_msg s)) h1;
           i2c_get_ack env h2 }) = Some (False, h3)"
    and d: "drives (port s) h3 False True 1 [Start, ShiftOut (sla_addr (itc_msg s)), GetAck False]"
    by auto
  from i2c_stop_run [OF assms(1)] obtain h4 where
    b: "i2c_stop env h3 = Some h4" and d4: "drives h3 h4 True True 0 [Stop]"
    by blast
  have "process env stop s =
      Some (Inr (I2C_NACK_ADDR, s\<lparr>itc_msg := (itc_msg s)\<lparr>xferred := 0\<rparr>, port := h4\<rparr>))"
    unfolding process_assoc Let_def a by (simp add: b set_xferred_def)
  moreover from drives_trans [OF d d4]
  have "drives (port s) h4 True True 1
            [Start, ShiftOut (sla_addr (itc_msg s)), GetAck False, Stop]"
    by simp
  ultimately show ?thesis by blast
qed

lemma finish_run:
  assumes "released env"
  shows "\<exists>h. finish env stop s = Some (Inr (I2C_OK, s\<lparr>port := h\<rparr>)) \<and>
           drives (port s) h True (stop = 1) 0 [if stop = 1 then Stop else RepeatedStart]"
proof (cases "stop = 1")
  case True
  from i2c_stop_run [OF assms] obtain h where
    "i2c_stop env (port s) = Some h" "drives (port s) h True True 0 [Stop]" by blast
  with True show ?thesis by (intro exI [of _ h]) (simp add: finish_def)
next
  case False
  from i2c_repeated_start_run [OF assms] obtain h where
    "i2c_repeated_start env (port s) = Some h" "drives (port s) h True False 0 [RepeatedStart]"
    by blast
  with False show ?thesis by (intro exI [of _ h]) (simp add: finish_def)
qed

text \<open>The sending loop when the slave acknowledges \<open>m\<close> bytes and not the next one.\<close>

lemma write_loop_nack:
  assumes rel: "released env"
    and ptr: "data (itc_msg s) = TxPtr off" "off + length_m (itc_msg s) \<le> length (tx_buf s)"
    and i: "i = word_of_nat (xferred (itc_msg s))"
    and bound: "xferred (itc_msg s) + m < length_m (itc_msg s)"
    and acks: "\<forall>j<m. \<not> env SDA (sda_reads (port s) + j)"
    and nack: "env SDA (sda_reads (port s) + m)"
  shows "\<exists>h. write_loop env i s =
            Some (Inr (Some I2C_NACK_DATA,
              s\<lparr>itc_msg := (itc_msg s)\<lparr>xferred := xferred (itc_msg s) + m\<rparr>, port := h\<rparr>)) \<and>
          drives (port s) h True True (Suc m)
            (concat (map (\<lambda>j. [ShiftOut (tx_buf s ! (off + j mod 256)), GetAck True])
                       [xferred (itc_msg s)..<xferred (itc_msg s) + m]) @
             [ShiftOut (tx_buf s ! (off + (xferred (itc_msg s) + m) mod 256)), GetAck False, Stop])"
  using ptr i bound acks nack
proof (induction m arbitrary: s i)
  case 0
  let ?x = "xferred (itc_msg s)"
  let ?v = "tx_buf s ! (off + ?x mod 256)"
  have ui: "unat i = ?x mod 256" using "0.prems"(3) by (simp add: unat_u8_of_nat)
  have "?x mod 256 \<le> ?x" by simp
  with "0.prems" have lt: "unat i < length_m (itc_msg s)" and ld: "load_data s (unat i) = Inr ?v"
    by (simp_all add: unat_u8_of_nat load_data_def)
  from i2c_shift_out_run [OF rel] obtain h1 c d where
    a: "i2c_shift_out env ?v (port s) = Some h1" and d1: "drives (port s) h1 c d 0 [ShiftOut ?v]"
    by blast
  from i2c_get_ack_run [OF rel] obtain h2 where
    b: "i2c_get_ack env h1 = Some (\<not> env SDA (sda_reads h1), h2)"
    and d2: "drives h1 h2 False True 1 [GetAck (\<not> env SDA (sda_reads h1))]"
    by blast
  have r: "sda_reads h1 = sda_reads (port s)" using d1 by (simp add: drives_def)
  from "0.prems"(6) have nk: "env SDA (sda_reads h1)" by (simp add: r)
  from i2c_stop_run [OF rel] obtain h3 where
    c: "i2c_stop env h2 = Some h3" and d3: "drives h2 h3 True True 0 [Stop]"
    by blast
  have "write_loop env i s = Some (Inr (Some I2C_NACK_DATA, s\<lparr>port := h3\<rparr>))"
    by (subst write_loop.simps) (simp add: lt ld a b nk c)
  moreover from drives_trans [OF drives_trans [OF d1 d2] d3] nk
  have "drives (port s) h3 True True (Suc 0) [ShiftOut ?v, GetAck False, Stop]"
    by simp
  ultimately show ?case by (intro exI [of _ h3]) simp
next
  case (Suc m)
  let ?x = "xferred (itc_msg s)"
  let ?v = "tx_buf s ! (off + ?x mod 256)"
  have ui: "unat i = ?x mod 256" using Suc.prems(3) by (simp add: unat_u8_of_nat)
  have "?x mod 256 \<le> ?x" by simp
  with Suc.prems have lt: "unat i < length_m (itc_msg s)" and ld: "load_data s (unat i) = Inr ?v"
    by (simp_all add: unat_u8_of_nat load_data_def)
  from i2c_shift_out_run [OF rel] obtain h1 c d where
    a: "i2c_shift_out env ?v (port s) = Some h1" and d1: "drives (port s) h1 c d 0 [ShiftOut ?v]"
    by blast
  from i2c_get_ack_run [OF rel] obtain h2 where
    b: "i2c_get_ack env h1 = Some (\<not> env SDA (sda_reads h1), h2)"
    and d2: "drives h1 h2 False True 1 [GetAck (\<not> env SDA (sda_reads h1))]"
    by blast
  have r: "sda_reads h1 = sda_reads (port s)" using d1 by (simp add: drives_def)
  from Suc.prems(5) have "\<not> env SDA (sda_reads (port s) + 0)" by blast
  then have ak: "\<not> env SDA (sda_reads h1)" by (simp add: r)
  let ?s2 = "set_xferred (Suc ?x) (s\<lparr>port := h2\<rparr>)"
  have r2: "sda_reads h2 = Suc (sda_reads (port s))"
    using d2 r by (simp add: drives_def)
  have step: "write_loop env i s = write_loop env (i + 1) ?s2"
    by (subst write_loop.simps) (simp add: lt ld a b ak)
  have p1: "data (itc_msg ?s2) = TxPtr off" using Suc.prems(1) by simp
  have p2: "off + length_m (itc_msg ?s2) \<le> length (tx_buf ?s2)"
    using Suc.prems(2) by (simp add: set_xferred_def)
  have p3: "i + 1 = word_of_nat (xferred (itc_msg ?s2))"
    using Suc.prems(3) by simp
  have p4: "xferred (itc_msg ?s2) + m < length_m (itc_msg ?s2)"
    using Suc.prems(4) by simp
  have p5: "\<forall>j<m. \<not> env SDA (sda_reads (port ?s2) + j)"
  proof (intro allI impI)
    fix j assume "j < m"
    then have "Suc j < Suc m" by simp
    with Suc.prems(5) have "\<not> env SDA (sda_reads (port s) + Suc j)" by blast
    then show "\<not> env SDA (sda_reads (port ?s2) + j)" by (simp add: r2)
  qed
  have p6: "env SDA (sda_reads (port ?s2) + m)"
    using Suc.prems(6) by (simp add: r2)
  from Suc.IH [OF p1 p2 p3 p4 p5 p6] obtain h where
    w: "write_loop env (i + 1) ?s2 =
          Some (Inr (Some I2C_NACK_DATA,
            ?s2\<lparr>itc_msg := (itc_msg ?s2)\<lparr>xferred := xferred (itc_msg ?s2) + m\<rparr>, port := h\<rparr>))"
    and dr: "drives (port ?s2) h True True (Suc m)
            (concat (map (\<lambda>j. [ShiftOut (tx_buf ?s2 ! (off + j mod 256)), GetAck True])
                       [xferred (itc_msg ?s2)..<xferred (itc_msg ?s2) + m]) @
             [ShiftOut (tx_buf ?s2 ! (off + (xferred (itc_msg ?s2) + m) mod 256)), GetAck False, Stop])"
    by blast
  have st: "?s2\<lparr>itc_msg := (itc_msg ?s2)\<lparr>xferred := xferred (itc_msg ?s2) + m\<rparr>, port := h\<rparr> =
      s\<lparr>itc_msg := (itc_msg s)\<lparr>xferred := ?x + Suc m\<rparr>, port := h\<rparr>"
    by (simp add: set_xferred_def)
  have up: "[?x..<?x + Suc m] = ?x # [Suc ?x..<Suc ?x + m]"
    by (simp add: upt_conv_Cons)
  from dr have dr': "drives h2 h True True (Suc m)
            (concat (map (\<lambda>j. [ShiftOut (tx_buf s ! (off + j mod 256)), GetAck True])
                       [Suc ?x..<Suc ?x + m]) @
             [ShiftOut (tx_buf s ! (off + (?x + Suc m) mod 256)), GetAck False, Stop])"
    by (simp add: set_xferred_def)
  from drives_trans [OF drives_trans [OF d1 d2] dr'] ak
  have "drives (port s) h True True (Suc (Suc m))
            (concat (map (\<lambda>j. [ShiftOut (tx_buf s ! (off + j mod 256)), GetAck True])
                       [?x..<?x + Suc m]) @
             [ShiftOut (tx_buf s ! (off + (?x + Suc m) mod 256)), GetAck False, Stop])"
    unfolding up by simp
  with step w st show ?case by (intro exI [of _ h]) simp
qed

text \<open>The receiving loop with room in the buffer.\<close>

lemma read_loop_run:
  assumes rel: "released env"
    and ptr: "data (itc_msg s) = RxPtr off" "off + length_m (itc_msg s) \<le> length (rx_buf s)"
    and n: "n = length_m (itc_msg s) - xferred (itc_msg s)"
    and le: "xferred (itc_msg s) \<le> length_m (itc_msg s)"
  shows "\<exists>h bs c d. read_loop env s =
            Some (Inr (s\<lparr>itc_msg := (itc_msg s)\<lparr>xferred := length_m (itc_msg s)\<rparr>,
                        rx_buf := take (off + xferred (itc_msg s)) (rx_buf s) @ bs @
                                  drop (off + length_m (itc_msg s)) (rx_buf s),
                        port := h\<rparr>)) \<and>
          length bs = n \<and>
          drives (port s) h c d (8 * n)
            (concat (map (\<lambda>i. [ShiftIn (bs ! i),
                                 if xferred (itc_msg s) + Suc i < length_m (itc_msg s)
                                 then SendAck else SendNack]) [0..<n]))"
  using ptr n le
proof (induction n arbitrary: s)
  case 0
  then have e: "xferred (itc_msg s) = length_m (itc_msg s)" by simp
  have "read_loop env s = Some (Inr s)"
    by (subst read_loop.simps) (simp add: e)
  moreover have "s\<lparr>itc_msg := (itc_msg s)\<lparr>xferred := length_m (itc_msg s)\<rparr>,
                        rx_buf := take (off + xferred (itc_msg s)) (rx_buf s) @ [] @
                                  drop (off + length_m (itc_msg s)) (rx_buf s),
                        port := port s\<rparr> = s"
    using e by simp
  ultimately show ?case
    using drives_refl [of "port s"]
    by (intro exI [of _ "port s"] exI [of _ "[]"] exI [of _ "scl_out (port s)"]
        exI [of _ "sda_out (port s)"]) simp
next
  case (Suc n)
  let ?x = "xferred (itc_msg s)"
  let ?N = "length_m (itc_msg s)"
  from Suc.prems have lt: "?x < ?N" by simp
  from i2c_shift_in_run [OF rel] obtain b h1 c1 where
    a: "i2c_shift_in env (port s) = Some (b, h1)"
    and d1: "drives (port s) h1 c1 True 8 [ShiftIn b]"
    by blast
  let ?s1 = "s\<lparr>rx_buf := (rx_buf s)[off + ?x := b]\<rparr>"
  from Suc.prems lt have inb: "off + ?x < length (rx_buf s)" by simp
  then have sd: "store_data s ?x b = Inr ?s1"
    using Suc.prems(1) by (simp add: store_data_def)
  let ?k = "if Suc ?x < ?N then SendAck else SendNack"
  have "\<exists>h2 d2. (if Suc ?x < ?N then i2c_send_ack env h1 else i2c_send_nack env h1) = Some h2 \<and>
      drives h1 h2 False d2 0 [?k]"
  proof (cases "Suc ?x < ?N")
    case True
    from i2c_send_ack_run [OF rel] obtain h2 where
      "i2c_send_ack env h1 = Some h2" "drives h1 h2 False False 0 [SendAck]" by blast
    with True show ?thesis by auto
  next
    case False
    from i2c_send_nack_run [OF rel] obtain h2 where
      "i2c_send_nack env h1 = Some h2" "drives h1 h2 False True 0 [SendNack]" by blast
    with False show ?thesis by auto
  qed
  then obtain h2 d2 where
    k: "(if Suc ?x < ?N then i2c_send_ack env h1 else i2c_send_nack env h1) = Some h2"
    and d2: "drives h1 h2 False d2 0 [?k]"
    by blast
  let ?s3 = "(set_xferred (Suc ?x) ?s1)\<lparr>port := h2\<rparr>"
  have step: "read_loop env s = read_loop env ?s3"
    by (subst read_loop.simps) (simp add: lt a sd Let_def k)
  have p1: "data (itc_msg ?s3) = RxPtr off" using Suc.prems(1) by simp
  have p2: "off + length_m (itc_msg ?s3) \<le> length (rx_buf ?s3)"
    using Suc.prems(2) by (simp add: set_xferred_def)
  have p3: "n = length_m (itc_msg ?s3) - xferred (itc_msg ?s3)"
    using Suc.prems(3) by simp
  have p4: "xferred (itc_msg ?s3) \<le> length_m (itc_msg ?s3)"
    using lt by simp
  from Suc.IH [OF p1 p2 p3 p4] obtain h bs c d where
    rl: "read_loop env ?s3 =
            Some (Inr (?s3\<lparr>itc_msg := (itc_msg ?s3)\<lparr>xferred := length_m (itc_msg ?s3)\<rparr>,
                        rx_buf := take (off + xferred (itc_msg ?s3)) (rx_buf ?s3) @ bs @
                                  drop (off + length_m (itc_msg ?s3)) (rx_buf ?s3),
                        port := h\<rparr>))"
    and lb: "length bs = n"
    and dr: "drives (port ?s3) h c d (8 * n)
            (concat (map (\<lambda>i. [ShiftIn (bs ! i),
                                 if xferred (itc_msg ?s3) + Suc i < length_m (itc_msg ?s3)
                                 then SendAck else SendNack]) [0..<n]))"
    by blast
  have tk: "take (off + Suc ?x) ((rx_buf s)[off + ?x := b]) = take (off + ?x) (rx_buf s) @ [b]"
    using inb by (simp add: take_Suc_conv_app_nth)
  have dp: "drop (off + ?N) ((rx_buf s)[off + ?x := b]) = drop (off + ?N) (rx_buf s)"
    using lt by simp
  have st: "?s3\<lparr>itc_msg := (itc_msg ?s3)\<lparr>xferred := length_m (itc_msg ?s3)\<rparr>,
                        rx_buf := take (off + xferred (itc_msg ?s3)) (rx_buf ?s3) @ bs @
                                  drop (off + length_m (itc_msg ?s3)) (rx_buf ?s3),
                        port := h\<rparr> =
      s\<lparr>itc_msg := (itc_msg s)\<lparr>xferred := ?N\<rparr>,
         rx_buf := take (off + ?x) (rx_buf s) @ (b # bs) @ drop (off + ?N) (rx_buf s),
         port := h\<rparr>"
    using tk dp by (simp add: set_xferred_def)
  from dr have dr': "drives h2 h c d (8 * n)
            (concat (map (\<lambda>i. [ShiftIn ((b # bs) ! Suc i),
                                 if ?x + Suc (Suc i) < ?N then SendAck else SendNack]) [0..<n]))"
    by simp
  have "(if ?x + Suc 0 < ?N then SendAck else SendNack) = ?k" by simp
  with drives_trans [OF drives_trans [OF d1 d2] dr']
  have "drives (port s) h c d (8 * Suc n)
            (concat (map (\<lambda>i. [ShiftIn ((b # bs) ! i),
                                 if ?x + Suc i < ?N then SendAck else SendNack]) [0..<Suc n]))"
    unfolding map_upt_Suc by simp
  with step rl [unfolded st] lb show ?case
    by (intro exI [of _ h] exI [of _ "b # bs"] exI [of _ c] exI [of _ d]) simp
qed

text \<open>A request that does not fit behind the read cursor runs over the end of the buffer.\<close>

lemma read_loop_overrun:
  assumes rel: "released env"
    and ptr: "data (itc_msg s) = RxPtr off"
    and k: "k = length (rx_buf s) - (off + xferred (itc_msg s))"
    and within: "off + xferred (itc_msg s) \<le> length (rx_buf s)"
    and over: "length (rx_buf s) < off + length_m (itc_msg s)"
  shows "read_loop env s = Some (Inl OutOfBounds)"
  using ptr k within over
proof (induction k arbitrary: s)
  case 0
  let ?x = "xferred (itc_msg s)"
  from "0.prems" have e: "off + ?x = length (rx_buf s)" and lt: "?x < length_m (itc_msg s)"
    by simp_all
  from i2c_shift_in_run [OF rel] obtain b h1 where
    a: "i2c_shift_in env (port s) = Some (b, h1)" by blast
  have sd: "store_data s ?x b = Inl OutOfBounds"
    using "0.prems"(1) e by (simp add: store_data_def)
  show ?case
    by (subst read_loop.simps) (simp add: lt a sd)
next
  case (Suc k)
  let ?x = "xferred (itc_msg s)"
  let ?N = "length_m (itc_msg s)"
  from Suc.prems have inb: "off + ?x < length (rx_buf s)" and lt: "?x < ?N"
    by simp_all
  from i2c_shift_in_run [OF rel] obtain b h1 where
    a: "i2c_shift_in env (port s) = Some (b, h1)" by blast
  let ?s1 = "s\<lparr>rx_buf := (rx_buf s)[off + ?x := b]\<rparr>"
  have sd: "store_data s ?x b = Inr ?s1"
    using Suc.prems(1) inb by (simp add: store_data_def)
  have "\<exists>h2. (if Suc ?x < ?N then i2c_send_ack env h1 else i2c_send_nack env h1) = Some h2"
    using i2c_send_ack_total [OF rel] i2c_send_nack_total [OF rel] by simp
  then obtain h2 where
    ak: "(if Suc ?x < ?N then i2c_send_ack env h1 else i2c_send_nack env h1) = Some h2"
    by blast
  let ?s3 = "(set_xferred (Suc ?x) ?s1)\<lparr>port := h2\<rparr>"
  have step: "read_loop env s = read_loop env ?s3"
    by (subst read_loop.simps) (simp add: lt a sd Let_def ak)
  have p1: "data (itc_msg ?s3) = RxPtr off" using Suc.prems(1) by simp
  have p2: "k = length (rx_buf ?s3) - (off + xferred (itc_msg ?s3))"
    using Suc.prems(2) by (simp add: set_xferred_def)
  have p3: "off + xferred (itc_msg ?s3) \<le> length (rx_buf ?s3)"
    using inb by (simp add: set_xferred_def)
  have p4: "length (rx_buf ?s3) < off + length_m (itc_msg ?s3)"
    using Suc.prems(4) by (simp add: set_xferred_def)
  from Suc.IH [OF p1 p2 p3 p4] step show ?case by simp
qed

lemma requestFrom_overrun:
  assumes rel: "released env"
    and ack: "\<not> env SDA (sda_reads (port s))"
    and idx: "rx_buf_idx s \<le> length (rx_buf s)"
    and over: "length (rx_buf s) < rx_buf_idx s + min num_bytes cap"
  shows "requestFrom cap env address num_bytes s = Some (Inl OutOfBounds)"
proof -
  let ?n = "if cap < num_bytes then cap else num_bytes"
  let ?s1 = "s\<lparr>itc_msg := (itc_msg s)\<lparr>addr := address, flags := I2C_MSG_READ,
                                         length_m := ?n, data := RxPtr (rx_buf_idx s)\<rparr>\<rparr>"
  let ?a = "sla_addr (itc_msg ?s1)"
  from address_phase [OF rel, of ?s1 ?a] ack obtain h3 where
    a: "(do { h1 \<leftarrow> i2c_start env (port ?s1);
           h2 \<leftarrow> i2c_shift_out env ?a h1;
           i2c_get_ack env h2 }) = Some (True, h3)"
    by auto
  let ?s2 = "(set_xferred 0 ?s1)\<lparr>port := h3\<rparr>"
  have n: "?n = min num_bytes cap" by simp
  have p1: "data (itc_msg ?s2) = RxPtr (rx_buf_idx s)" by simp
  have p3: "rx_buf_idx s + xferred (itc_msg ?s2) \<le> length (rx_buf ?s2)"
    using idx by (simp add: set_xferred_def)
  have p4: "length (rx_buf ?s2) < rx_buf_idx s + length_m (itc_msg ?s2)"
    using over unfolding n [symmetric] by (simp add: set_xferred_def)
  from read_loop_overrun [OF rel p1 refl p3 p4]
  have rl: "read_loop env ?s2 = Some (Inl OutOfBounds)" .
  have "process env 1 ?s1 = Some (Inl OutOfBounds)"
    unfolding process_assoc Let_def a by (simp add: rl)
  then show ?thesis
    by (simp add: requestFrom_def process_legacy_def Let_def)
qed

text \<open>What \<^verbatim>\<open>requestFrom\<close> does when it returns.\<close>

lemma requestFrom_accounting:
  assumes "requestFrom cap env address num_bytes s = Some (Inr (v, s'))"
  shows "rx_buf_len s' = rx_buf_len s + xferred (itc_msg s') \<and>
     v = word_of_nat (rx_buf_len s') \<and> rx_buf_idx s' = rx_buf_idx s \<and>
     length_m (itc_msg s') = min num_bytes cap \<and> data (itc_msg s') = RxPtr (rx_buf_idx s) \<and>
     (\<exists>rest. calls (port s') = calls (port s) @ Start #
                ShiftOut (push_bit 1 address OR 1) # rest)"
proof -
  let ?n = "if cap < num_bytes then cap else num_bytes"
  let ?s1 = "s\<lparr>itc_msg := (itc_msg s)\<lparr>addr := address, flags := I2C_MSG_READ,
                                         length_m := ?n, data := RxPtr (rx_buf_idx s)\<rparr>\<rparr>"
  from assms obtain r where p: "process env 1 ?s1 = Some r"
    and k: "(case r of
           Inl e \<Rightarrow> Some (Inl e)
         | Inr (stat, s2) \<Rightarrow>
             Some (Inr (word_of_nat (rx_buf_len s2) + word_of_nat (xferred (itc_msg s2)),
                        s2\<lparr>rx_buf_len := rx_buf_len s2 + xferred (itc_msg s2),
                           itc_msg := (itc_msg s2)\<lparr>flags := 0\<rparr>\<rparr>))) = Some (Inr (v, s'))"
    by (auto simp: requestFrom_def process_legacy_def Let_def bind_eq_Some_conv)
  from k obtain stat s2 where r: "r = Inr (stat, s2)"
    by (cases r) auto
  from k r have s': "s' = s2\<lparr>rx_buf_len := rx_buf_len s2 + xferred (itc_msg s2),
                            itc_msg := (itc_msg s2)\<lparr>flags := 0\<rparr>\<rparr>"
    and v: "v = word_of_nat (rx_buf_len s2 + xferred (itc_msg s2))"
    by auto
  from process_partial [OF p [unfolded r]] obtain mid q fin where
    fr: "frame ?s1 s2"
    and dr: "drives (port ?s1) (port s2) True (stat \<noteq> I2C_OK \<or> (1::u8) = 1) q
        (Start # ShiftOut (sla_addr (itc_msg ?s1)) # mid @ [fin])"
    by blast
  have sa: "sla_addr (itc_msg ?s1) = push_bit 1 address OR 1"
    by (simp add: sla_addr_def I2C_READ_def)
  from dr have "calls (port s2) = calls (port s) @ Start #
                ShiftOut (push_bit 1 address OR 1) # (mid @ [fin])"
    unfolding sa by (simp add: drives_def)
  with fr s' v show ?thesis
    by (auto simp: frame_def)
qed

text \<open>
  The read cursor does not pass the available length: \<^verbatim>\<open>begin\<close> establishes it,
  \<^verbatim>\<open>requestFrom\<close> and \<^verbatim>\<open>endTransmission\<close> keep it.
\<close>

lemma cursor_begin: "rx_buf_idx (WireBase_begin s) \<le> rx_buf_len (WireBase_begin s)"
  by (simp add: WireBase_begin_def reset_indices_def)

lemma cursor_requestFrom:
  assumes "requestFrom cap env address num_bytes s = Some (Inr (v, s'))"
    and "rx_buf_idx s \<le> rx_buf_len s"
  shows "rx_buf_idx s' \<le> rx_buf_len s'"
  using requestFrom_accounting [OF assms(1)] assms(2) by simp

lemma cursor_endTransmission:
  assumes "endTransmission env s = Some (Inr (st, s'))"
  shows "rx_buf_idx s' = rx_buf_idx s \<and> rx_buf_len s' = rx_buf_len s"
proof (cases "tx_buf_overflow s")
  case True
  with assms show ?thesis by (simp add: endTransmission_def)
next
  case False
  with assms obtain r where p: "process env 1 s = Some r"
    and k: "(case r of Inl e \<Rightarrow> Some (Inl e)
             | Inr (stat, s1) \<Rightarrow> Some (Inr (stat, s1\<lparr>tx_buf_idx := 0, tx_buf_overflow := False\<rparr>)))
            = Some (Inr (st, s'))"
    by (auto simp: endTransmission_def process_legacy_def bind_eq_Some_conv)
  from k obtain s1 where r: "r = Inr (st, s1)"
    and s': "s' = s1\<lparr>tx_buf_idx := 0, tx_buf_overflow := False\<rparr>"
    by (cases r) auto
  from process_partial [OF p [unfolded r]] have "frame s s1" by simp
  with s' show ?thesis by (simp add: frame_def)
qed

subsection \<open>Every return under a given pattern of acknowledges\<close>

text \<open>The address phase, when it returns.\<close>

lemma address_phase_ret:
  assumes "(do { h1 \<leftarrow> i2c_start env (port s);
           h2 \<leftarrow> i2c_shift_out env a h1;
           i2c_get_ack env h2 }) = Some (ack, h3)"
  shows "ack = (\<not> env SDA (sda_reads (port s))) \<and>
     drives (port s) h3 False True 1 [Start, ShiftOut a, GetAck ack]"
proof -
  from assms obtain h1 h2 where
    a: "i2c_start env (port s) = Some h1"
    and b: "i2c_shift_out env a h1 = Some h2"
    and c: "i2c_get_ack env h2 = Some (ack, h3)"
    by (auto simp: bind_eq_Some_conv)
  from i2c_shift_out_drives [OF b] obtain c2 d2 where
    d2: "drives h1 h2 c2 d2 0 [ShiftOut a]" by blast
  note d1 = i2c_start_drives [OF a]
  have r: "sda_reads h2 = sda_reads (port s)"
    using d1 d2 by (simp add: drives_def)
  from i2c_get_ack_drives [OF c] have k: "ack = (\<not> env SDA (sda_reads h2))"
    and d3: "drives h2 h3 False True 1 [GetAck ack]"
    by blast+
  from drives_trans [OF drives_trans [OF d1 d2] d3]
  have "drives (port s) h3 False True 1 [Start, ShiftOut a, GetAck ack]" by simp
  with k r show ?thesis by simp
qed

lemma process_ret_address:
  assumes "process env stop s = Some r"
  obtains ack h3 where
    "(do { h1 \<leftarrow> i2c_start env (port s);
           h2 \<leftarrow> i2c_shift_out env (sla_addr (itc_msg s)) h1;
           i2c_get_ack env h2 }) = Some (ack, h3)"
  using assms unfolding process_assoc Let_def by (auto simp: bind_eq_Some_conv)

lemma finish_ret:
  assumes "finish env stop s = Some r"
  shows "\<exists>h. r = Inr (I2C_OK, s\<lparr>port := h\<rparr>) \<and>
           drives (port s) h True (stop = 1) 0 [if stop = 1 then Stop else RepeatedStart]"
proof -
  from assms obtain h where
    h: "(if stop = 1 then i2c_stop env (port s) else i2c_repeated_start env (port s)) = Some h"
    and r: "r = Inr (I2C_OK, s\<lparr>port := h\<rparr>)"
    by (auto simp: finish_def bind_eq_Some_conv)
  from h have "drives (port s) h True (stop = 1) 0 [if stop = 1 then Stop else RepeatedStart]"
    by (auto split: if_splits dest: i2c_stop_drives i2c_repeated_start_drives)
  with r show ?thesis by blast
qed

text \<open>Every return of the sending loop under \<open>m\<close> acknowledges and then none.\<close>

lemma write_loop_nack_ret:
  assumes ret: "write_loop env i s = Some r"
    and ptr: "data (itc_msg s) = TxPtr off" "off + length_m (itc_msg s) \<le> length (tx_buf s)"
    and i: "i = word_of_nat (xferred (itc_msg s))"
    and bound: "xferred (itc_msg s) + m < length_m (itc_msg s)"
    and acks: "\<forall>j<m. \<not> env SDA (sda_reads (port s) + j)"
    and nack: "env SDA (sda_reads (port s) + m)"
  shows "\<exists>h. r = Inr (Some I2C_NACK_DATA,
              s\<lparr>itc_msg := (itc_msg s)\<lparr>xferred := xferred (itc_msg s) + m\<rparr>, port := h\<rparr>) \<and>
          drives (port s) h True True (Suc m)
            (concat (map (\<lambda>j. [ShiftOut (tx_buf s ! (off + j mod 256)), GetAck True])
                       [xferred (itc_msg s)..<xferred (itc_msg s) + m]) @
             [ShiftOut (tx_buf s ! (off + (xferred (itc_msg s) + m) mod 256)), GetAck False, Stop])"
  using ret ptr i bound acks nack
proof (induction m arbitrary: s i)
  case 0
  let ?x = "xferred (itc_msg s)"
  let ?v = "tx_buf s ! (off + ?x mod 256)"
  have "?x mod 256 \<le> ?x" by simp
  with "0.prems" have lt: "unat i < length_m (itc_msg s)" and ld: "load_data s (unat i) = Inr ?v"
    by (simp_all add: unat_u8_of_nat load_data_def)
  from "0.prems"(1) have body: "(do {
             h1 \<leftarrow> i2c_shift_out env ?v (port s);
             (ack, h2) \<leftarrow> i2c_get_ack env h1;
             if \<not> ack then do {
               h3 \<leftarrow> i2c_stop env h2;
               Some (Inr (Some I2C_NACK_DATA, s\<lparr>port := h3\<rparr>)) }
             else write_loop env (i + 1)
                    (set_xferred (Suc (xferred (itc_msg s))) (s\<lparr>port := h2\<rparr>)) }) = Some r"
    by (subst (asm) write_loop.simps) (simp add: lt ld)
  then obtain h1 ack h2 where
    a: "i2c_shift_out env ?v (port s) = Some h1"
    and b: "i2c_get_ack env h1 = Some (ack, h2)"
    and rest: "(if \<not> ack then do {
               h3 \<leftarrow> i2c_stop env h2;
               Some (Inr (Some I2C_NACK_DATA, s\<lparr>port := h3\<rparr>)) }
             else write_loop env (i + 1)
                    (set_xferred (Suc (xferred (itc_msg s))) (s\<lparr>port := h2\<rparr>))) = Some r"
    by (auto simp: bind_eq_Some_conv)
  from i2c_shift_out_drives [OF a] obtain c d where
    d1: "drives (port s) h1 c d 0 [ShiftOut ?v]" by blast
  have rd: "sda_reads h1 = sda_reads (port s)" using d1 by (simp add: drives_def)
  from i2c_get_ack_drives [OF b] "0.prems"(7) have na: "\<not> ack" by (simp add: rd)
  with i2c_get_ack_drives [OF b] have d2: "drives h1 h2 False True 1 [GetAck False]" by simp
  from rest na obtain h3 where c: "i2c_stop env h2 = Some h3"
    and r: "r = Inr (Some I2C_NACK_DATA, s\<lparr>port := h3\<rparr>)"
    by (auto simp: bind_eq_Some_conv)
  from drives_trans [OF drives_trans [OF d1 d2] i2c_stop_drives [OF c]]
  have "drives (port s) h3 True True (Suc 0) [ShiftOut ?v, GetAck False, Stop]"
    by simp
  with r show ?case by (intro exI [of _ h3]) simp
next
  case (Suc m)
  let ?x = "xferred (itc_msg s)"
  let ?v = "tx_buf s ! (off + ?x mod 256)"
  have "?x mod 256 \<le> ?x" by simp
  with Suc.prems have lt: "unat i < length_m (itc_msg s)" and ld: "load_data s (unat i) = Inr ?v"
    by (simp_all add: unat_u8_of_nat load_data_def)
  from Suc.prems(1) have body: "(do {
             h1 \<leftarrow> i2c_shift_out env ?v (port s);
             (ack, h2) \<leftarrow> i2c_get_ack env h1;
             if \<not> ack then do {
               h3 \<leftarrow> i2c_stop env h2;
               Some (Inr (Some I2C_NACK_DATA, s\<lparr>port := h3\<rparr>)) }
             else write_loop env (i + 1)
                    (set_xferred (Suc (xferred (itc_msg s))) (s\<lparr>port := h2\<rparr>)) }) = Some r"
    by (subst (asm) write_loop.simps) (simp add: lt ld)
  then obtain h1 ack h2 where
    a: "i2c_shift_out env ?v (port s) = Some h1"
    and b: "i2c_get_ack env h1 = Some (ack, h2)"
    and rest: "(if \<not> ack then do {
               h3 \<leftarrow> i2c_stop env h2;
               Some (Inr (Some I2C_NACK_DATA, s\<lparr>port := h3\<rparr>)) }
             else write_loop env (i + 1)
                    (set_xferred (Suc (xferred (itc_msg s))) (s\<lparr>port := h2\<rparr>))) = Some r"
    by (auto simp: bind_eq_Some_conv)
  from i2c_shift_out_drives [OF a] obtain c d where
    d1: "drives (port s) h1 c d 0 [ShiftOut ?v]" by blast
  have rd: "sda_reads h1 = sda_reads (port s)" using d1 by (simp add: drives_def)
  from Suc.prems(6) have "\<not> env SDA (sda_reads (port s) + 0)" by blast
  with i2c_get_ack_drives [OF b] have ak: "ack" by (simp add: rd)
  with i2c_get_ack_drives [OF b] have d2: "drives h1 h2 False True 1 [GetAck True]" by simp
  let ?s2 = "set_xferred (Suc ?x) (s\<lparr>port := h2\<rparr>)"
  have r2: "sda_reads h2 = Suc (sda_reads (port s))"
    using d2 rd by (simp add: drives_def)
  from rest ak have p0: "write_loop env (i + 1) ?s2 = Some r" by simp
  have p1: "data (itc_msg ?s2) = TxPtr off" using Suc.prems(2) by simp
  have p2: "off + length_m (itc_msg ?s2) \<le> length (tx_buf ?s2)"
    using Suc.prems(3) by (simp add: set_xferred_def)
  have p3: "i + 1 = word_of_nat (xferred (itc_msg ?s2))"
    using Suc.prems(4) by simp
  have p4: "xferred (itc_msg ?s2) + m < length_m (itc_msg ?s2)"
    using Suc.prems(5) by simp
  have p5: "\<forall>j<m. \<not> env SDA (sda_reads (port ?s2) + j)"
  proof (intro allI impI)
    fix j assume "j < m"
    then have "Suc j < Suc m" by simp
    with Suc.prems(6) have "\<not> env SDA (sda_reads (port s) + Suc j)" by blast
    then show "\<not> env SDA (sda_reads (port ?s2) + j)" by (simp add: r2)
  qed
  have p6: "env SDA (sda_reads (port ?s2) + m)"
    using Suc.prems(7) by (simp add: r2)
  from Suc.IH [OF p0 p1 p2 p3 p4 p5 p6] obtain h where
    w: "r = Inr (Some I2C_NACK_DATA,
            ?s2\<lparr>itc_msg := (itc_msg ?s2)\<lparr>xferred := xferred (itc_msg ?s2) + m\<rparr>, port := h\<rparr>)"
    and dr: "drives (port ?s2) h True True (Suc m)
            (concat (map (\<lambda>j. [ShiftOut (tx_buf ?s2 ! (off + j mod 256)), GetAck True])
                       [xferred (itc_msg ?s2)..<xferred (itc_msg ?s2) + m]) @
             [ShiftOut (tx_buf ?s2 ! (off + (xferred (itc_msg ?s2) + m) mod 256)), GetAck False, Stop])"
    by blast
  have st: "?s2\<lparr>itc_msg := (itc_msg ?s2)\<lparr>xferred := xferred (itc_msg ?s2) + m\<rparr>, port := h\<rparr> =
      s\<lparr>itc_msg := (itc_msg s)\<lparr>xferred := ?x + Suc m\<rparr>, port := h\<rparr>"
    by (simp add: set_xferred_def)
  have up: "[?x..<?x + Suc m] = ?x # [Suc ?x..<Suc ?x + m]"
    by (simp add: upt_conv_Cons)
  from dr have dr': "drives h2 h True True (Suc m)
            (concat (map (\<lambda>j. [ShiftOut (tx_buf s ! (off + j mod 256)), GetAck True])
                       [Suc ?x..<Suc ?x + m]) @
             [ShiftOut (tx_buf s ! (off + (?x + Suc m) mod 256)), GetAck False, Stop])"
    by (simp add: set_xferred_def)
  from drives_trans [OF drives_trans [OF d1 d2] dr']
  have "drives (port s) h True True (Suc (Suc m))
            (concat (map (\<lambda>j. [ShiftOut (tx_buf s ! (off + j mod 256)), GetAck True])
                       [?x..<?x + Suc m]) @
             [ShiftOut (tx_buf s ! (off + (?x + Suc m) mod 256)), GetAck False, Stop])"
    unfolding up by simp
  with w [unfolded st] show ?case by (intro exI [of _ h]) simp
qed

text \<open>Every return of the receiving loop with room in the buffer.\<close>

lemma read_loop_ret:
  assumes ret: "read_loop env s = Some r"
    and ptr: "data (itc_msg s) = RxPtr off" "off + length_m (itc_msg s) \<le> length (rx_buf s)"
    and n: "n = length_m (itc_msg s) - xferred (itc_msg s)"
    and le: "xferred (itc_msg s) \<le> length_m (itc_msg s)"
  shows "\<exists>h bs c d. r =
            Inr (s\<lparr>itc_msg := (itc_msg s)\<lparr>xferred := length_m (itc_msg s)\<rparr>,
                   rx_buf := take (off + xferred (itc_msg s)) (rx_buf s) @ bs @
                             drop (off + length_m (itc_msg s)) (rx_buf s),
                   port := h\<rparr>) \<and>
          length bs = n \<and>
          drives (port s) h c d (8 * n)
            (concat (map (\<lambda>i. [ShiftIn (bs ! i),
                                 if xferred (itc_msg s) + Suc i < length_m (itc_msg s)
                                 then SendAck else SendNack]) [0..<n]))"
  using ret ptr n le
proof (induction n arbitrary: s)
  case 0
  then have e: "xferred (itc_msg s) = length_m (itc_msg s)" by simp
  from "0.prems"(1) have "r = Inr s"
    by (subst (asm) read_loop.simps) (simp add: e)
  moreover have "s\<lparr>itc_msg := (itc_msg s)\<lparr>xferred := length_m (itc_msg s)\<rparr>,
                        rx_buf := take (off + xferred (itc_msg s)) (rx_buf s) @ [] @
                                  drop (off + length_m (itc_msg s)) (rx_buf s),
                        port := port s\<rparr> = s"
    using e by simp
  ultimately show ?case
    using drives_refl [of "port s"]
    by (intro exI [of _ "port s"] exI [of _ "[]"] exI [of _ "scl_out (port s)"]
        exI [of _ "sda_out (port s)"]) simp
next
  case (Suc n)
  let ?x = "xferred (itc_msg s)"
  let ?N = "length_m (itc_msg s)"
  from Suc.prems have lt: "?x < ?N" by simp
  from Suc.prems lt have inb: "off + ?x < length (rx_buf s)" by simp
  from Suc.prems(1) have body: "(do {
        (b, h1) \<leftarrow> i2c_shift_in env (port s);
        (case store_data s ?x b of
           Inl e \<Rightarrow> Some (Inl e)
         | Inr s1 \<Rightarrow> do {
             let s2 = set_xferred (Suc (xferred (itc_msg s1))) s1;
             h2 \<leftarrow> (if xferred (itc_msg s2) < length_m (itc_msg s2)
                    then i2c_send_ack env h1 else i2c_send_nack env h1);
             read_loop env (s2\<lparr>port := h2\<rparr>) }) }) = Some r"
    by (subst (asm) read_loop.simps) (simp add: lt)
  then obtain b h1 where
    a: "i2c_shift_in env (port s) = Some (b, h1)"
    and k: "(case store_data s ?x b of
           Inl e \<Rightarrow> Some (Inl e)
         | Inr s1 \<Rightarrow> do {
             let s2 = set_xferred (Suc (xferred (itc_msg s1))) s1;
             h2 \<leftarrow> (if xferred (itc_msg s2) < length_m (itc_msg s2)
                    then i2c_send_ack env h1 else i2c_send_nack env h1);
             read_loop env (s2\<lparr>port := h2\<rparr>) }) = Some r"
    by (auto simp: bind_eq_Some_conv)
  from i2c_shift_in_drives [OF a] obtain c1 where
    d1: "drives (port s) h1 c1 True 8 [ShiftIn b]" by blast
  let ?s1 = "s\<lparr>rx_buf := (rx_buf s)[off + ?x := b]\<rparr>"
  have sd: "store_data s ?x b = Inr ?s1"
    using Suc.prems(2) inb by (simp add: store_data_def)
  let ?k = "if Suc ?x < ?N then SendAck else SendNack"
  from k obtain h2 where
    ak: "(if Suc ?x < ?N then i2c_send_ack env h1 else i2c_send_nack env h1) = Some h2"
    and rc: "read_loop env ((set_xferred (Suc ?x) ?s1)\<lparr>port := h2\<rparr>) = Some r"
    unfolding sd by (auto simp: bind_eq_Some_conv Let_def)
  from ak have "\<exists>d2. drives h1 h2 False d2 0 [?k]"
    by (auto split: if_splits dest: i2c_send_ack_drives i2c_send_nack_drives)
  then obtain d2 where d2: "drives h1 h2 False d2 0 [?k]" by blast
  let ?s3 = "(set_xferred (Suc ?x) ?s1)\<lparr>port := h2\<rparr>"
  have p1: "data (itc_msg ?s3) = RxPtr off" using Suc.prems(2) by simp
  have p2: "off + length_m (itc_msg ?s3) \<le> length (rx_buf ?s3)"
    using Suc.prems(3) by (simp add: set_xferred_def)
  have p3: "n = length_m (itc_msg ?s3) - xferred (itc_msg ?s3)"
    using Suc.prems(4) by simp
  have p4: "xferred (itc_msg ?s3) \<le> length_m (itc_msg ?s3)"
    using lt by simp
  from Suc.IH [OF rc p1 p2 p3 p4] obtain h bs c d where
    rl: "r = Inr (?s3\<lparr>itc_msg := (itc_msg ?s3)\<lparr>xferred := length_m (itc_msg ?s3)\<rparr>,
                        rx_buf := take (off + xferred (itc_msg ?s3)) (rx_buf ?s3) @ bs @
                                  drop (off + length_m (itc_msg ?s3)) (rx_buf ?s3),
                        port := h\<rparr>)"
    and lb: "length bs = n"
    and dr: "drives (port ?s3) h c d (8 * n)
            (concat (map (\<lambda>i. [ShiftIn (bs ! i),
                                 if xferred (itc_msg ?s3) + Suc i < length_m (itc_msg ?s3)
                                 then SendAck else SendNack]) [0..<n]))"
    by blast
  have tk: "take (off + Suc ?x) ((rx_buf s)[off + ?x := b]) = take (off + ?x) (rx_buf s) @ [b]"
    using inb by (simp add: take_Suc_conv_app_nth)
  have dp: "drop (off + ?N) ((rx_buf s)[off + ?x := b]) = drop (off + ?N) (rx_buf s)"
    using lt by simp
  have st: "?s3\<lparr>itc_msg := (itc_msg ?s3)\<lparr>xferred := length_m (itc_msg ?s3)\<rparr>,
                        rx_buf := take (off + xferred (itc_msg ?s3)) (rx_buf ?s3) @ bs @
                                  drop (off + length_m (itc_msg ?s3)) (rx_buf ?s3),
                        port := h\<rparr> =
      s\<lparr>itc_msg := (itc_msg s)\<lparr>xferred := ?N\<rparr>,
         rx_buf := take (off + ?x) (rx_buf s) @ (b # bs) @ drop (off + ?N) (rx_buf s),
         port := h\<rparr>"
    using tk dp by (simp add: set_xferred_def)
  from dr have dr': "drives h2 h c d (8 * n)
            (concat (map (\<lambda>i. [ShiftIn ((b # bs) ! Suc i),
                                 if ?x + Suc (Suc i) < ?N then SendAck else SendNack]) [0..<n]))"
    by simp
  have "(if ?x + Suc 0 < ?N then SendAck else SendNack) = ?k" by simp
  with drives_trans [OF drives_trans [OF d1 d2] dr']
  have "drives (port s) h c d (8 * Suc n)
            (concat (map (\<lambda>i. [ShiftIn ((b # bs) ! i),
                                 if ?x + Suc i < ?N then SendAck else SendNack]) [0..<Suc n]))"
    unfolding map_upt_Suc by simp
  with rl [unfolded st] lb show ?case
    by (intro exI [of _ h] exI [of _ "b # bs"] exI [of _ c] exI [of _ d]) simp
qed

subsection \<open>The example runs\<close>

lemma staged_reached: "write_buf 4 [1, 2, 3] (beginTransmission 80 fresh) = Inr staged"
  by (simp add: beginTransmission_def WireBase_write_def staged_def fresh_def)

lemma process_absent_staged:
  "process absent 1 staged = Some (Inr (I2C_NACK_ADDR, staged\<lparr>port := bus_nack_addr\<rparr>))"
  by (simp add: bus_eval wire_eval absent_def staged_def fresh_def idle_bus_def bus_nack_addr_def)

lemma process_nacks_second_staged:
  "process nacks_second 1 staged = Some (Inr (I2C_NACK_DATA,
     staged\<lparr>itc_msg := (itc_msg staged)\<lparr>xferred := 1\<rparr>, port := bus_nack_data\<rparr>))"
  by (simp add: bus_eval wire_eval write_loop.simps nacks_second_def staged_def fresh_def idle_bus_def bus_nack_data_def)

lemma process_quiet_staged:
  "process quiet 0 staged = Some (Inr (I2C_OK,
     staged\<lparr>itc_msg := (itc_msg staged)\<lparr>xferred := 3\<rparr>, port := bus_sent_all\<rparr>))"
  by (simp add: bus_eval wire_eval write_loop.simps quiet_def staged_def fresh_def idle_bus_def bus_sent_all_def)

lemma process_talker_asking:
  "process talker 1 asking = Some (Inr (I2C_OK,
     asking\<lparr>itc_msg := (itc_msg asking)\<lparr>xferred := 2\<rparr>, rx_buf := [170, 170, 0, 0],
       port := bus_read_two\<rparr>))"
  by (simp add: bus_eval wire_eval read_loop.simps talker_def asking_def fresh_def idle_bus_def bus_read_two_def)

lemma released_absent: "released absent"
  by (simp add: released_def absent_def)

lemma released_nacks_second: "released nacks_second"
  by (simp add: released_def nacks_second_def)

lemma released_talker: "released talker"
  by (simp add: released_def talker_def)

section \<open>Claims\<close>

text \<open>
  C1. Whenever \<^verbatim>\<open>process\<close> returns a status, for any message, any value of
  \<^verbatim>\<open>stop\<close> and any slave, the primitives it has completed begin with the start
  condition and end with a stop condition or a repeated start; the repeated start occurs
  only with the status \<^verbatim>\<open>I2C_OK\<close> and \<^verbatim>\<open>stop\<close> different from 1. The clock line
  is left high, and the data line is high after a stop and low after a repeated start.
\<close>

theorem process_leaves_bus_defined:
  assumes "process env stop s = Some (Inr (st, s'))"
  shows "(\<exists>mid. calls (port s') = calls (port s) @ Start # mid @
            [if st = I2C_OK \<and> stop \<noteq> 1 then RepeatedStart else Stop]) \<and>
         scl_out (port s') \<and> sda_out (port s') = (st \<noteq> I2C_OK \<or> stop = 1)"
proof -
  from process_partial [OF assms] obtain mid q where
    "drives (port s) (port s') True (st \<noteq> I2C_OK \<or> stop = 1) q
        (Start # ShiftOut (sla_addr (itc_msg s)) # mid @
           [if st = I2C_OK \<and> stop \<noteq> 1 then RepeatedStart else Stop])"
    by blast
  then have "calls (port s') = calls (port s) @ Start # (ShiftOut (sla_addr (itc_msg s)) # mid) @
           [if st = I2C_OK \<and> stop \<noteq> 1 then RepeatedStart else Stop]"
    and "scl_out (port s')" and "sda_out (port s') = (st \<noteq> I2C_OK \<or> stop = 1)"
    by (simp_all add: drives_def)
  then show ?thesis by blast
qed

theorem process_leaves_bus_defined_witness:
  "process absent 1 staged = Some (Inr (I2C_NACK_ADDR, staged\<lparr>port := bus_nack_addr\<rparr>)) \<and>
   calls bus_nack_addr = Start # [ShiftOut 160, GetAck False] @ [Stop] \<and>
   scl_out bus_nack_addr \<and> sda_out bus_nack_addr \<and>
   process quiet 0 staged = Some (Inr (I2C_OK,
     staged\<lparr>itc_msg := (itc_msg staged)\<lparr>xferred := 3\<rparr>, port := bus_sent_all\<rparr>)) \<and>
   last (calls bus_sent_all) = RepeatedStart \<and> scl_out bus_sent_all \<and> \<not> sda_out bus_sent_all"
proof -
  from process_leaves_bus_defined [OF process_absent_staged]
  have c1: "scl_out bus_nack_addr" "sda_out bus_nack_addr" by simp_all
  from process_leaves_bus_defined [OF process_quiet_staged]
  have c2: "scl_out bus_sent_all" "\<not> sda_out bus_sent_all" by simp_all
  have c3: "calls bus_nack_addr = Start # [ShiftOut 160, GetAck False] @ [Stop]"
    "last (calls bus_sent_all) = RepeatedStart"
    by (simp_all add: bus_nack_addr_def bus_sent_all_def)
  show ?thesis
    by (intro conjI) (fact process_absent_staged process_quiet_staged c1 c2 c3)+
qed

text \<open>
  C2. When the first sample of the data line, the acknowledge bit of the address byte,
  is high, every return of \<^verbatim>\<open>process\<close> has the status \<^verbatim>\<open>I2C_NACK_ADDR\<close>; the
  primitives completed are the start condition, the address byte, the acknowledge read
  and the stop condition, and nothing else; the object differs from the one before the
  call only in the bus and in the transferred count, which is 0. If the slave releases
  the clock after every stretch, \<^verbatim>\<open>process\<close> does return.
\<close>

theorem address_nack:
  assumes nack: "env SDA (sda_reads (port s))"
  shows "(released env \<longrightarrow> process env stop s \<noteq> None) \<and>
     (\<forall>r. process env stop s = Some r \<longrightarrow>
        (\<exists>h. r = Inr (I2C_NACK_ADDR, s\<lparr>itc_msg := (itc_msg s)\<lparr>xferred := 0\<rparr>, port := h\<rparr>) \<and>
             calls h = calls (port s) @
               [Start, ShiftOut (sla_addr (itc_msg s)), GetAck False, Stop] \<and>
             scl_out h \<and> sda_out h))"
proof (intro conjI impI allI)
  assume "released env"
  from process_address_nack [OF this nack] show "process env stop s \<noteq> None" by auto
next
  fix r
  assume ret: "process env stop s = Some r"
  let ?a = "sla_addr (itc_msg s)"
  from ret obtain ack h3 where
    ph: "(do { h1 \<leftarrow> i2c_start env (port s);
           h2 \<leftarrow> i2c_shift_out env ?a h1;
           i2c_get_ack env h2 }) = Some (ack, h3)"
    unfolding process_assoc Let_def by (auto simp: bind_eq_Some_conv)
  then obtain h1 h2 where
    a: "i2c_start env (port s) = Some h1"
    and b: "i2c_shift_out env ?a h1 = Some h2"
    and c: "i2c_get_ack env h2 = Some (ack, h3)"
    by (auto simp: bind_eq_Some_conv)
  from i2c_shift_out_drives [OF b] obtain c2 d2 where
    d2: "drives h1 h2 c2 d2 0 [ShiftOut ?a]" by blast
  note d1 = i2c_start_drives [OF a]
  have "sda_reads h2 = sda_reads (port s)"
    using d1 d2 by (simp add: drives_def)
  with i2c_get_ack_drives [OF c] nack have na: "\<not> ack"
    by simp
  with i2c_get_ack_drives [OF c] have d3: "drives h2 h3 False True 1 [GetAck False]"
    by simp
  from ret na obtain h4 where
    sp: "i2c_stop env h3 = Some h4"
    and r: "r = Inr (I2C_NACK_ADDR, (set_xferred 0 s)\<lparr>port := h4\<rparr>)"
    unfolding process_assoc Let_def ph by (auto simp: bind_eq_Some_conv)
  from drives_trans [OF drives_trans [OF drives_trans [OF d1 d2] d3] i2c_stop_drives [OF sp]]
  have "calls h4 = calls (port s) @ [Start, ShiftOut ?a, GetAck False, Stop]"
    and "scl_out h4" and "sda_out h4"
    by (simp_all add: drives_def)
  moreover have "r = Inr (I2C_NACK_ADDR, s\<lparr>itc_msg := (itc_msg s)\<lparr>xferred := 0\<rparr>, port := h4\<rparr>)"
    using r by (simp add: set_xferred_def)
  ultimately show "\<exists>h. r = Inr (I2C_NACK_ADDR, s\<lparr>itc_msg := (itc_msg s)\<lparr>xferred := 0\<rparr>, port := h\<rparr>) \<and>
             calls h = calls (port s) @ [Start, ShiftOut ?a, GetAck False, Stop] \<and>
             scl_out h \<and> sda_out h"
    by blast
qed

theorem address_nack_witness:
  "absent SDA (sda_reads (port staged)) \<and> released absent \<and>
   process absent 1 staged =
     Some (Inr (I2C_NACK_ADDR, staged\<lparr>itc_msg := (itc_msg staged)\<lparr>xferred := 0\<rparr>,
                                      port := bus_nack_addr\<rparr>)) \<and>
   calls bus_nack_addr = [Start, ShiftOut 160, GetAck False, Stop]"
proof -
  have a: "absent SDA (sda_reads (port staged))" by (simp add: absent_def)
  have e: "staged\<lparr>itc_msg := (itc_msg staged)\<lparr>xferred := 0\<rparr>, port := bus_nack_addr\<rparr> =
      staged\<lparr>port := bus_nack_addr\<rparr>"
    by (simp add: staged_def)
  from address_nack [of absent staged 1] a released_absent
  have ret: "process absent 1 staged \<noteq> None" by blast
  have c1: "process absent 1 staged =
     Some (Inr (I2C_NACK_ADDR, staged\<lparr>itc_msg := (itc_msg staged)\<lparr>xferred := 0\<rparr>,
                                      port := bus_nack_addr\<rparr>))"
    using ret process_absent_staged unfolding e by simp
  have c2: "calls bus_nack_addr = [Start, ShiftOut 160, GetAck False, Stop]"
    by (simp add: bus_nack_addr_def)
  show ?thesis
    by (intro conjI) (fact a released_absent c1 c2)+
qed

text \<open>
  C3. A write of \<open>N\<close> bytes that lie in the transmit buffer, to a slave that
  acknowledges the address and the first \<open>K < N\<close> bytes and does not acknowledge the
  next byte: every return of \<^verbatim>\<open>process\<close> has the status \<^verbatim>\<open>I2C_NACK_DATA\<close>, the
  transferred count is \<open>K\<close>, the bytes shifted out are the address and the first
  \<open>K + 1\<close> bytes of the message, and the last primitive is the stop condition, which
  leaves both lines high. Nothing else of the object changes. If the slave releases the
  clock after every stretch, \<^verbatim>\<open>process\<close> does return.
\<close>

theorem partial_write:
  assumes dir: "flags (itc_msg s) \<noteq> I2C_MSG_READ"
    and ptr: "data (itc_msg s) = TxPtr off" "off + length_m (itc_msg s) \<le> length (tx_buf s)"
    and K: "K < length_m (itc_msg s)"
    and acks: "\<forall>j\<le>K. \<not> env SDA (sda_reads (port s) + j)"
    and nack: "env SDA (sda_reads (port s) + Suc K)"
  shows "(released env \<longrightarrow> process env stop s \<noteq> None) \<and>
     (\<forall>r. process env stop s = Some r \<longrightarrow>
        (\<exists>h. r = Inr (I2C_NACK_DATA, s\<lparr>itc_msg := (itc_msg s)\<lparr>xferred := K\<rparr>, port := h\<rparr>) \<and>
          calls h = calls (port s) @ [Start, ShiftOut (sla_addr (itc_msg s)), GetAck True] @
            concat (map (\<lambda>j. [ShiftOut (tx_buf s ! (off + j mod 256)), GetAck True]) [0..<K]) @
            [ShiftOut (tx_buf s ! (off + K mod 256)), GetAck False, Stop] \<and>
          scl_out h \<and> sda_out h))"
proof (intro conjI impI allI)
  let ?a = "sla_addr (itc_msg s)"
  from acks have a0: "\<not> env SDA (sda_reads (port s))"
    using le0 [of K] by (metis add.right_neutral)
  have loopfacts: "data (itc_msg ((set_xferred 0 s)\<lparr>port := h3\<rparr>)) = TxPtr off \<and>
      off + length_m (itc_msg ((set_xferred 0 s)\<lparr>port := h3\<rparr>))
        \<le> length (tx_buf ((set_xferred 0 s)\<lparr>port := h3\<rparr>)) \<and>
      (0 :: u8) = word_of_nat (xferred (itc_msg ((set_xferred 0 s)\<lparr>port := h3\<rparr>))) \<and>
      xferred (itc_msg ((set_xferred 0 s)\<lparr>port := h3\<rparr>)) + K
        < length_m (itc_msg ((set_xferred 0 s)\<lparr>port := h3\<rparr>)) \<and>
      (\<forall>j<K. \<not> env SDA (sda_reads (port ((set_xferred 0 s)\<lparr>port := h3\<rparr>)) + j)) \<and>
      env SDA (sda_reads (port ((set_xferred 0 s)\<lparr>port := h3\<rparr>)) + K)"
    if r3: "sda_reads h3 = Suc (sda_reads (port s))" for h3
  proof -
    have "\<forall>j<K. \<not> env SDA (sda_reads (port ((set_xferred 0 s)\<lparr>port := h3\<rparr>)) + j)"
    proof (intro allI impI)
      fix j assume "j < K"
      then have "Suc j \<le> K" by simp
      with acks have "\<not> env SDA (sda_reads (port s) + Suc j)" by blast
      then show "\<not> env SDA (sda_reads (port ((set_xferred 0 s)\<lparr>port := h3\<rparr>)) + j)"
        by (simp add: r3)
    qed
    moreover have "env SDA (sda_reads (port ((set_xferred 0 s)\<lparr>port := h3\<rparr>)) + K)"
      using nack by (simp add: r3)
    ultimately show ?thesis using ptr K by (simp add: set_xferred_def)
  qed
  {
    assume rel: "released env"
    from address_phase [OF rel, of s ?a] a0 obtain h3 where
      a: "(do { h1 \<leftarrow> i2c_start env (port s);
             h2 \<leftarrow> i2c_shift_out env ?a h1;
             i2c_get_ack env h2 }) = Some (True, h3)"
      and d: "drives (port s) h3 False True 1 [Start, ShiftOut ?a, GetAck True]"
      by auto
    have r3: "sda_reads h3 = Suc (sda_reads (port s))"
      using d by (simp add: drives_def)
    note lf = loopfacts [OF r3]
    from write_loop_nack [OF rel lf [THEN conjunct1] lf [THEN conjunct2, THEN conjunct1]
        lf [THEN conjunct2, THEN conjunct2, THEN conjunct1]
        lf [THEN conjunct2, THEN conjunct2, THEN conjunct2, THEN conjunct1]
        lf [THEN conjunct2, THEN conjunct2, THEN conjunct2, THEN conjunct2, THEN conjunct1]
        lf [THEN conjunct2, THEN conjunct2, THEN conjunct2, THEN conjunct2, THEN conjunct2]]
    obtain sx where w: "write_loop env 0 ((set_xferred 0 s)\<lparr>port := h3\<rparr>) =
        Some (Inr (Some I2C_NACK_DATA, sx))"
      by blast
    have "process env stop s = Some (Inr (I2C_NACK_DATA, sx))"
      unfolding process_assoc Let_def a using dir by (simp add: w)
    then show "process env stop s \<noteq> None" by simp
  }
  fix r
  assume ret: "process env stop s = Some r"
  from process_ret_address [OF ret] obtain ack h3 where
    ph: "(do { h1 \<leftarrow> i2c_start env (port s);
           h2 \<leftarrow> i2c_shift_out env ?a h1;
           i2c_get_ack env h2 }) = Some (ack, h3)"
    by blast
  from address_phase_ret [OF ph] a0 have ak: "ack" by simp
  with address_phase_ret [OF ph]
  have d: "drives (port s) h3 False True 1 [Start, ShiftOut ?a, GetAck True]"
    by simp
  have r3: "sda_reads h3 = Suc (sda_reads (port s))"
    using d by (simp add: drives_def)
  let ?s1 = "(set_xferred 0 s)\<lparr>port := h3\<rparr>"
  from ret obtain rw where wl: "write_loop env 0 ?s1 = Some rw"
    and k: "(case rw of
             Inl e \<Rightarrow> Some (Inl e)
           | Inr (Some st, s1) \<Rightarrow> Some (Inr (st, s1))
           | Inr (None, s1) \<Rightarrow> finish env stop s1) = Some r"
    unfolding process_assoc Let_def ph using ak dir by (auto simp: bind_eq_Some_conv)
  note lf = loopfacts [OF r3]
  from write_loop_nack_ret [OF wl lf [THEN conjunct1] lf [THEN conjunct2, THEN conjunct1]
        lf [THEN conjunct2, THEN conjunct2, THEN conjunct1]
        lf [THEN conjunct2, THEN conjunct2, THEN conjunct2, THEN conjunct1]
        lf [THEN conjunct2, THEN conjunct2, THEN conjunct2, THEN conjunct2, THEN conjunct1]
        lf [THEN conjunct2, THEN conjunct2, THEN conjunct2, THEN conjunct2, THEN conjunct2]]
  obtain h where
    w: "rw = Inr (Some I2C_NACK_DATA,
            ?s1\<lparr>itc_msg := (itc_msg ?s1)\<lparr>xferred := xferred (itc_msg ?s1) + K\<rparr>, port := h\<rparr>)"
    and dr: "drives (port ?s1) h True True (Suc K)
            (concat (map (\<lambda>j. [ShiftOut (tx_buf ?s1 ! (off + j mod 256)), GetAck True])
                       [xferred (itc_msg ?s1)..<xferred (itc_msg ?s1) + K]) @
             [ShiftOut (tx_buf ?s1 ! (off + (xferred (itc_msg ?s1) + K) mod 256)), GetAck False, Stop])"
    by blast
  have st: "?s1\<lparr>itc_msg := (itc_msg ?s1)\<lparr>xferred := xferred (itc_msg ?s1) + K\<rparr>, port := h\<rparr> =
      s\<lparr>itc_msg := (itc_msg s)\<lparr>xferred := K\<rparr>, port := h\<rparr>"
    by (simp add: set_xferred_def)
  from k have r: "r = Inr (I2C_NACK_DATA, s\<lparr>itc_msg := (itc_msg s)\<lparr>xferred := K\<rparr>, port := h\<rparr>)"
    unfolding w st by simp
  from dr have "drives h3 h True True (Suc K)
            (concat (map (\<lambda>j. [ShiftOut (tx_buf s ! (off + j mod 256)), GetAck True]) [0..<K]) @
             [ShiftOut (tx_buf s ! (off + K mod 256)), GetAck False, Stop])"
    by (simp add: set_xferred_def)
  from drives_trans [OF d this]
  have "calls h = calls (port s) @ [Start, ShiftOut ?a, GetAck True] @
            concat (map (\<lambda>j. [ShiftOut (tx_buf s ! (off + j mod 256)), GetAck True]) [0..<K]) @
            [ShiftOut (tx_buf s ! (off + K mod 256)), GetAck False, Stop]"
    and "scl_out h" and "sda_out h"
    by (simp_all add: drives_def)
  with r show "\<exists>h. r = Inr (I2C_NACK_DATA, s\<lparr>itc_msg := (itc_msg s)\<lparr>xferred := K\<rparr>, port := h\<rparr>) \<and>
          calls h = calls (port s) @ [Start, ShiftOut ?a, GetAck True] @
            concat (map (\<lambda>j. [ShiftOut (tx_buf s ! (off + j mod 256)), GetAck True]) [0..<K]) @
            [ShiftOut (tx_buf s ! (off + K mod 256)), GetAck False, Stop] \<and>
          scl_out h \<and> sda_out h"
    by blast
qed

theorem partial_write_witness:
  "released nacks_second \<and> flags (itc_msg staged) \<noteq> I2C_MSG_READ \<and>
   data (itc_msg staged) = TxPtr 0 \<and> 0 + length_m (itc_msg staged) \<le> length (tx_buf staged) \<and>
   1 < length_m (itc_msg staged) \<and>
   \<not> nacks_second SDA (sda_reads (port staged) + 0) \<and>
   \<not> nacks_second SDA (sda_reads (port staged) + 1) \<and>
   nacks_second SDA (sda_reads (port staged) + Suc 1) \<and>
   process nacks_second 1 staged = Some (Inr (I2C_NACK_DATA,
     staged\<lparr>itc_msg := (itc_msg staged)\<lparr>xferred := 1\<rparr>, port := bus_nack_data\<rparr>)) \<and>
   calls bus_nack_data = [Start, ShiftOut 160, GetAck True, ShiftOut 1, GetAck True,
                          ShiftOut 2, GetAck False, Stop]"
proof -
  have h: "flags (itc_msg staged) \<noteq> I2C_MSG_READ" "data (itc_msg staged) = TxPtr 0"
    "0 + length_m (itc_msg staged) \<le> length (tx_buf staged)" "1 < length_m (itc_msg staged)"
    by (simp_all add: staged_def fresh_def I2C_MSG_READ_def)
  have acks: "\<forall>j\<le>1. \<not> nacks_second SDA (sda_reads (port staged) + j)"
    by (simp add: nacks_second_def staged_def fresh_def idle_bus_def)
  have nack: "nacks_second SDA (sda_reads (port staged) + Suc 1)"
    by (simp add: nacks_second_def staged_def fresh_def idle_bus_def)
  from partial_write [where env = nacks_second and s = staged and off = 0 and K = 1 and stop = 1,
      OF h acks nack] released_nacks_second
  have "process nacks_second 1 staged \<noteq> None" by blast
  with process_nacks_second_staged
  have c1: "process nacks_second 1 staged = Some (Inr (I2C_NACK_DATA,
     staged\<lparr>itc_msg := (itc_msg staged)\<lparr>xferred := 1\<rparr>, port := bus_nack_data\<rparr>))"
    by simp
  have c2: "calls bus_nack_data = [Start, ShiftOut 160, GetAck True, ShiftOut 1,
      GetAck True, ShiftOut 2, GetAck False, Stop]"
    by (simp add: bus_nack_data_def)
  have a0: "\<not> nacks_second SDA (sda_reads (port staged) + 0)"
    and a1: "\<not> nacks_second SDA (sda_reads (port staged) + 1)"
    by (simp_all add: nacks_second_def staged_def fresh_def idle_bus_def)
  show ?thesis
    by (intro conjI) (fact released_nacks_second h a0 a1 nack c1 c2)+
qed

text \<open>
  C4. For an address \<open>A\<close> of at most 127, the byte that \<^verbatim>\<open>process\<close> shifts out
  directly after the start condition is \<open>(A << 1) | 1\<close> when the flags of the message
  say Read and \<open>(A << 1) | 0\<close> otherwise; as a number it is \<open>2 A + 1\<close> and \<open>2 A\<close>.
\<close>

theorem address_byte:
  assumes "unat (addr (itc_msg s)) \<le> 127"
    and "process env stop s = Some (Inr (st, s'))"
  shows "\<exists>b rest. calls (port s') = calls (port s) @ Start # ShiftOut b # rest \<and>
     b = (if flags (itc_msg s) = I2C_MSG_READ then push_bit 1 (addr (itc_msg s)) OR 1
          else push_bit 1 (addr (itc_msg s)) OR 0) \<and>
     unat b = 2 * unat (addr (itc_msg s)) + (if flags (itc_msg s) = I2C_MSG_READ then 1 else 0)"
proof -
  let ?b = "sla_addr (itc_msg s)"
  from process_partial [OF assms(2)] obtain mid q fin where
    "drives (port s) (port s') True (st \<noteq> I2C_OK \<or> stop = 1) q
        (Start # ShiftOut ?b # mid @ [fin])"
    by blast
  then have "calls (port s') = calls (port s) @ Start # ShiftOut ?b # (mid @ [fin])"
    by (simp add: drives_def)
  moreover have "?b = (if flags (itc_msg s) = I2C_MSG_READ then push_bit 1 (addr (itc_msg s)) OR 1
          else push_bit 1 (addr (itc_msg s)) OR 0)"
    by (simp add: sla_addr_def Let_def I2C_READ_def)
  ultimately show ?thesis using sla_addr_unat [OF assms(1)] by blast
qed

theorem address_byte_witness:
  "unat (addr (itc_msg staged)) \<le> 127 \<and> unat (addr (itc_msg asking)) \<le> 127 \<and>
   process absent 1 staged = Some (Inr (I2C_NACK_ADDR, staged\<lparr>port := bus_nack_addr\<rparr>)) \<and>
   calls bus_nack_addr = calls (port staged) @ Start # ShiftOut 160 # [GetAck False, Stop] \<and>
   process talker 1 asking = Some (Inr (I2C_OK,
     asking\<lparr>itc_msg := (itc_msg asking)\<lparr>xferred := 2\<rparr>, rx_buf := [170, 170, 0, 0],
       port := bus_read_two\<rparr>)) \<and>
   calls bus_read_two = calls (port asking) @ Start # ShiftOut 161 #
     [GetAck True, ShiftIn 170, SendAck, ShiftIn 170, SendNack, Stop] \<and>
   push_bit 1 80 OR 0 = (160 :: u8) \<and> push_bit 1 80 OR 1 = (161 :: u8)"
proof -
  have a: "unat (addr (itc_msg staged)) \<le> 127" "unat (addr (itc_msg asking)) \<le> 127"
    by (simp_all add: staged_def asking_def fresh_def)
  from address_byte [OF a(1) process_absent_staged] obtain b rest where
    "calls (port (staged\<lparr>port := bus_nack_addr\<rparr>)) = calls (port staged) @ Start # ShiftOut b # rest"
    by blast
  then have c1: "calls bus_nack_addr =
      calls (port staged) @ Start # ShiftOut 160 # [GetAck False, Stop]"
    by (simp add: staged_def fresh_def idle_bus_def bus_nack_addr_def)
  from address_byte [OF a(2) process_talker_asking] obtain b rest where
    "calls (port (asking\<lparr>itc_msg := (itc_msg asking)\<lparr>xferred := 2\<rparr>,
       rx_buf := [170, 170, 0, 0], port := bus_read_two\<rparr>)) =
     calls (port asking) @ Start # ShiftOut b # rest"
    by blast
  then have c2: "calls bus_read_two = calls (port asking) @ Start # ShiftOut 161 #
     [GetAck True, ShiftIn 170, SendAck, ShiftIn 170, SendNack, Stop]"
    by (simp add: asking_def fresh_def idle_bus_def bus_read_two_def)
  have c3: "push_bit 1 80 OR 0 = (160 :: u8)" "push_bit 1 80 OR 1 = (161 :: u8)"
    by simp_all
  show ?thesis
    by (intro conjI) (fact a process_absent_staged process_talker_asking c1 c2 c3)+
qed

text \<open>
  C5. A read of \<open>count\<close> bytes into a part of the receive buffer that has room for
  them, from a slave that acknowledges the address: every return of \<^verbatim>\<open>process\<close> has
  the status \<^verbatim>\<open>I2C_OK\<close> and comes after exactly \<open>count\<close> shift-in operations, each
  followed by an acknowledge except the last, which is followed by a not-acknowledge; the
  \<open>i\<close>-th byte received is stored at index \<open>i\<close> of the destination, the rest of the
  buffer is unchanged, and the transferred count is \<open>count\<close>. If the slave releases
  the clock after every stretch, the loop ends and \<^verbatim>\<open>process\<close> returns.
\<close>

theorem read_transaction:
  assumes dir: "flags (itc_msg s) = I2C_MSG_READ"
    and ptr: "data (itc_msg s) = RxPtr off" "off + length_m (itc_msg s) \<le> length (rx_buf s)"
    and ack: "\<not> env SDA (sda_reads (port s))"
  shows "(released env \<longrightarrow> process env stop s \<noteq> None) \<and>
     (\<forall>r. process env stop s = Some r \<longrightarrow>
        (\<exists>h bs. r = Inr (I2C_OK,
              s\<lparr>itc_msg := (itc_msg s)\<lparr>xferred := length_m (itc_msg s)\<rparr>,
                rx_buf := take off (rx_buf s) @ bs @ drop (off + length_m (itc_msg s)) (rx_buf s),
                port := h\<rparr>) \<and>
          length bs = length_m (itc_msg s) \<and>
          calls h = calls (port s) @ [Start, ShiftOut (sla_addr (itc_msg s)), GetAck True] @
            concat (map (\<lambda>i. [ShiftIn (bs ! i),
                                if Suc i < length_m (itc_msg s) then SendAck else SendNack])
                      [0..<length_m (itc_msg s)]) @
            [if stop = 1 then Stop else RepeatedStart] \<and>
          (\<forall>i<length_m (itc_msg s).
             (take off (rx_buf s) @ bs @ drop (off + length_m (itc_msg s)) (rx_buf s)) ! (off + i)
               = bs ! i) \<and>
          scl_out h))"
proof (intro conjI impI allI)
  let ?a = "sla_addr (itc_msg s)"
  let ?N = "length_m (itc_msg s)"
  have p1: "data (itc_msg ((set_xferred 0 s)\<lparr>port := h3\<rparr>)) = RxPtr off" for h3
    using ptr(1) by simp
  have p2: "off + length_m (itc_msg ((set_xferred 0 s)\<lparr>port := h3\<rparr>))
      \<le> length (rx_buf ((set_xferred 0 s)\<lparr>port := h3\<rparr>))" for h3
    using ptr(2) by (simp add: set_xferred_def)
  have p3: "?N = length_m (itc_msg ((set_xferred 0 s)\<lparr>port := h3\<rparr>)) -
      xferred (itc_msg ((set_xferred 0 s)\<lparr>port := h3\<rparr>))" for h3
    by simp
  have p4: "xferred (itc_msg ((set_xferred 0 s)\<lparr>port := h3\<rparr>))
      \<le> length_m (itc_msg ((set_xferred 0 s)\<lparr>port := h3\<rparr>))" for h3
    by simp
  {
    assume rel: "released env"
    from address_phase [OF rel, of s ?a] ack obtain h3 where
      a: "(do { h1 \<leftarrow> i2c_start env (port s);
             h2 \<leftarrow> i2c_shift_out env ?a h1;
             i2c_get_ack env h2 }) = Some (True, h3)"
      by auto
    from read_loop_run [OF rel p1 p2 p3 p4] obtain sx where
      rl: "read_loop env ((set_xferred 0 s)\<lparr>port := h3\<rparr>) = Some (Inr sx)"
      by blast
    from finish_run [OF rel, of stop sx] obtain h5 where
      fin: "finish env stop sx = Some (Inr (I2C_OK, sx\<lparr>port := h5\<rparr>))"
      by blast
    have "process env stop s = Some (Inr (I2C_OK, sx\<lparr>port := h5\<rparr>))"
      unfolding process_assoc Let_def a using dir by (simp add: rl fin)
    then show "process env stop s \<noteq> None" by simp
  }
  fix r
  assume ret: "process env stop s = Some r"
  from process_ret_address [OF ret] obtain ak h3 where
    ph: "(do { h1 \<leftarrow> i2c_start env (port s);
           h2 \<leftarrow> i2c_shift_out env ?a h1;
           i2c_get_ack env h2 }) = Some (ak, h3)"
    by blast
  from address_phase_ret [OF ph] ack have ak: "ak" by simp
  with address_phase_ret [OF ph]
  have d: "drives (port s) h3 False True 1 [Start, ShiftOut ?a, GetAck True]"
    by simp
  let ?s1 = "(set_xferred 0 s)\<lparr>port := h3\<rparr>"
  from ret obtain rr where rl0: "read_loop env ?s1 = Some rr"
    and k: "(case rr of Inl e \<Rightarrow> Some (Inl e) | Inr s1 \<Rightarrow> finish env stop s1) = Some r"
    unfolding process_assoc Let_def ph using ak dir by (auto simp: bind_eq_Some_conv)
  from read_loop_ret [OF rl0 p1 p2 p3 p4] obtain h bs c0 d0 where
    rl: "rr = Inr (?s1\<lparr>itc_msg := (itc_msg ?s1)\<lparr>xferred := length_m (itc_msg ?s1)\<rparr>,
                        rx_buf := take (off + xferred (itc_msg ?s1)) (rx_buf ?s1) @ bs @
                                  drop (off + length_m (itc_msg ?s1)) (rx_buf ?s1),
                        port := h\<rparr>)"
    and lb: "length bs = ?N"
    and dr: "drives (port ?s1) h c0 d0 (8 * ?N)
            (concat (map (\<lambda>i. [ShiftIn (bs ! i),
                                 if xferred (itc_msg ?s1) + Suc i < length_m (itc_msg ?s1)
                                 then SendAck else SendNack]) [0..<?N]))"
    by blast
  let ?s2 = "s\<lparr>itc_msg := (itc_msg s)\<lparr>xferred := ?N\<rparr>,
                rx_buf := take off (rx_buf s) @ bs @ drop (off + ?N) (rx_buf s),
                port := h\<rparr>"
  have st: "?s1\<lparr>itc_msg := (itc_msg ?s1)\<lparr>xferred := length_m (itc_msg ?s1)\<rparr>,
                        rx_buf := take (off + xferred (itc_msg ?s1)) (rx_buf ?s1) @ bs @
                                  drop (off + length_m (itc_msg ?s1)) (rx_buf ?s1),
                        port := h\<rparr> = ?s2"
    by (simp add: set_xferred_def)
  from k have "finish env stop ?s2 = Some r"
    unfolding rl st by simp
  from finish_ret [OF this] obtain h5 where
    r0: "r = Inr (I2C_OK, ?s2\<lparr>port := h5\<rparr>)"
    and df: "drives (port ?s2) h5 True (stop = 1) 0 [if stop = 1 then Stop else RepeatedStart]"
    by blast
  from r0 have run: "r = Inr (I2C_OK,
              s\<lparr>itc_msg := (itc_msg s)\<lparr>xferred := ?N\<rparr>,
                rx_buf := take off (rx_buf s) @ bs @ drop (off + ?N) (rx_buf s),
                port := h5\<rparr>)"
    by simp
  from dr have dr': "drives h3 h c0 d0 (8 * ?N)
            (concat (map (\<lambda>i. [ShiftIn (bs ! i),
                                 if Suc i < ?N then SendAck else SendNack]) [0..<?N]))"
    by simp
  from df have df': "drives h h5 True (stop = 1) 0 [if stop = 1 then Stop else RepeatedStart]"
    by simp
  from drives_trans [OF drives_trans [OF d dr'] df']
  have cl: "calls h5 = calls (port s) @ [Start, ShiftOut ?a, GetAck True] @
            concat (map (\<lambda>i. [ShiftIn (bs ! i),
                                if Suc i < ?N then SendAck else SendNack]) [0..<?N]) @
            [if stop = 1 then Stop else RepeatedStart]"
    and sc: "scl_out h5"
    by (simp_all add: drives_def)
  have nth: "\<forall>i<?N. (take off (rx_buf s) @ bs @ drop (off + ?N) (rx_buf s)) ! (off + i) = bs ! i"
  proof (intro allI impI)
    fix i assume "i < ?N"
    moreover have "length (take off (rx_buf s)) = off" using ptr(2) by simp
    ultimately show "(take off (rx_buf s) @ bs @ drop (off + ?N) (rx_buf s)) ! (off + i) = bs ! i"
      using lb by (simp add: nth_append)
  qed
  from run lb cl nth sc
  show "\<exists>h bs. r = Inr (I2C_OK,
              s\<lparr>itc_msg := (itc_msg s)\<lparr>xferred := ?N\<rparr>,
                rx_buf := take off (rx_buf s) @ bs @ drop (off + ?N) (rx_buf s),
                port := h\<rparr>) \<and>
          length bs = ?N \<and>
          calls h = calls (port s) @ [Start, ShiftOut ?a, GetAck True] @
            concat (map (\<lambda>i. [ShiftIn (bs ! i),
                                if Suc i < ?N then SendAck else SendNack]) [0..<?N]) @
            [if stop = 1 then Stop else RepeatedStart] \<and>
          (\<forall>i<?N. (take off (rx_buf s) @ bs @ drop (off + ?N) (rx_buf s)) ! (off + i) = bs ! i) \<and>
          scl_out h"
    by blast
qed

theorem read_transaction_witness:
  "released talker \<and> flags (itc_msg asking) = I2C_MSG_READ \<and>
   data (itc_msg asking) = RxPtr 0 \<and> 0 + length_m (itc_msg asking) \<le> length (rx_buf asking) \<and>
   \<not> talker SDA (sda_reads (port asking)) \<and>
   process talker 1 asking = Some (Inr (I2C_OK,
     asking\<lparr>itc_msg := (itc_msg asking)\<lparr>xferred := 2\<rparr>, rx_buf := [170, 170, 0, 0],
       port := bus_read_two\<rparr>)) \<and>
   calls bus_read_two = [Start, ShiftOut 161, GetAck True, ShiftIn 170, SendAck,
                         ShiftIn 170, SendNack, Stop]"
proof -
  have h: "flags (itc_msg asking) = I2C_MSG_READ" "data (itc_msg asking) = RxPtr 0"
    "0 + length_m (itc_msg asking) \<le> length (rx_buf asking)"
    "\<not> talker SDA (sda_reads (port asking))"
    by (simp_all add: talker_def asking_def fresh_def idle_bus_def)
  from read_transaction [where env = talker and s = asking and off = 0 and stop = 1, OF h]
    released_talker
  have "process talker 1 asking \<noteq> None" by blast
  with process_talker_asking
  have c1: "process talker 1 asking = Some (Inr (I2C_OK,
     asking\<lparr>itc_msg := (itc_msg asking)\<lparr>xferred := 2\<rparr>, rx_buf := [170, 170, 0, 0],
       port := bus_read_two\<rparr>))"
    by simp
  have c2: "calls bus_read_two = [Start, ShiftOut 161, GetAck True, ShiftIn 170, SendAck,
                         ShiftIn 170, SendNack, Stop]"
    by (simp add: bus_read_two_def)
  show ?thesis
    by (intro conjI) (fact released_talker h c1 c2)+
qed

text \<open>
  C6. A byte staged with \<^verbatim>\<open>write\<close> while the transmit index equals the capacity sets
  the overflow flag and changes nothing else: buffer, index and message length stay as
  they are. The flag is sticky: whatever is staged afterwards leaves it set. With the flag
  set, \<^verbatim>\<open>endTransmission\<close> returns \<^verbatim>\<open>I2C_DATA_TOO_LONG\<close> and the whole object,
  its bus included, is as before: no line is driven or sampled.
\<close>

theorem overflow_fail_soft:
  "(tx_buf_idx s = cap \<longrightarrow> WireBase_write cap v s = Inr (s\<lparr>tx_buf_overflow := True\<rparr>)) \<and>
   (tx_buf_overflow s \<and> write_buf cap bs s = Inr s' \<longrightarrow> tx_buf_overflow s') \<and>
   (tx_buf_overflow s \<longrightarrow> endTransmission env s = Some (Inr (I2C_DATA_TOO_LONG, s)))"
  using write_buf_sticky [of s cap bs s']
  by (simp add: WireBase_write_def endTransmission_def)

theorem overflow_fail_soft_witness:
  "tx_buf_idx full = 4 \<and> WireBase_write 4 5 full = Inr stuck \<and>
   tx_buf_overflow stuck \<and> write_buf 4 [6, 7] stuck = Inr stuck \<and>
   endTransmission quiet stuck = Some (Inr (I2C_DATA_TOO_LONG, stuck))"
proof -
  have a: "tx_buf_idx full = 4" by (simp add: full_def)
  have b: "tx_buf_overflow stuck" by (simp add: stuck_def)
  have c: "write_buf 4 [6, 7] stuck = Inr stuck"
    by (simp add: WireBase_write_def stuck_def full_def)
  from overflow_fail_soft [of full 4 5 "[]" full quiet] a
  have "WireBase_write 4 5 full = Inr stuck" by (simp add: stuck_def)
  moreover from overflow_fail_soft [of stuck 4 5 "[6, 7]" stuck quiet] b c
  have "endTransmission quiet stuck = Some (Inr (I2C_DATA_TOO_LONG, stuck))" by simp
  ultimately show ?thesis using a b c by simp
qed

text \<open>
  C7, as stated, fails: \<^verbatim>\<open>beginTransmission\<close> resets neither the transmit index nor
  the overflow flag, and \<^verbatim>\<open>end\<close> resets nothing. After five bytes were staged into
  buffers of four, a new \<^verbatim>\<open>beginTransmission\<close> leaves the index at 4 and the flag set.
\<close>

theorem beginTransmission_no_reset:
  "write_buf 4 [1, 2, 3, 4, 5] (beginTransmission 80 fresh) = Inr stuck \<and>
   tx_buf_idx (beginTransmission 81 stuck) = 4 \<and>
   tx_buf_overflow (beginTransmission 81 stuck) \<and>
   tx_buf_idx (SoftWire_end stuck) = 4 \<and> tx_buf_overflow (SoftWire_end stuck)"
  by (simp add: beginTransmission_def WireBase_write_def SoftWire_end_def Let_def
      stuck_def full_def fresh_def)

text \<open>
  C7, amended. \<^verbatim>\<open>beginTransmission(a)\<close> resets the message only: it stores the
  address, points the data at the current transmit index and sets length and flags to 0;
  the transmit index and the overflow flag keep their values. Both are reset by
  \<^verbatim>\<open>begin\<close> (of \<^verbatim>\<open>WireBase\<close> and of \<^verbatim>\<open>SoftWire\<close>) and by an
  \<^verbatim>\<open>endTransmission\<close> that is entered with the flag clear. \<^verbatim>\<open>end\<close> leaves both.
\<close>

theorem beginTransmission_resets_message_only:
  "tx_buf_idx (beginTransmission a s) = tx_buf_idx s \<and>
   tx_buf_overflow (beginTransmission a s) = tx_buf_overflow s \<and>
   itc_msg (beginTransmission a s) =
     (itc_msg s)\<lparr>addr := a, data := TxPtr (tx_buf_idx s), length_m := 0, flags := 0\<rparr> \<and>
   tx_buf_idx (WireBase_begin s) = 0 \<and> \<not> tx_buf_overflow (WireBase_begin s) \<and>
   (SoftWire_begin env s = Some s1 \<longrightarrow> tx_buf_idx s1 = 0 \<and> \<not> tx_buf_overflow s1) \<and>
   (\<not> tx_buf_overflow s \<and> endTransmission env s = Some (Inr (st, s2)) \<longrightarrow>
      tx_buf_idx s2 = 0 \<and> \<not> tx_buf_overflow s2) \<and>
   tx_buf_idx (SoftWire_end s) = tx_buf_idx s \<and>
   tx_buf_overflow (SoftWire_end s) = tx_buf_overflow s"
  using endTransmission_resets [of s env st s2]
  by (auto simp: beginTransmission_def WireBase_begin_def reset_indices_def
      SoftWire_begin_def SoftWire_end_def Let_def bind_eq_Some_conv)

theorem beginTransmission_resets_message_only_witness:
  "tx_buf_idx (beginTransmission 81 staged) = 3 \<and>
   SoftWire_begin absent staged = Some began \<and> tx_buf_idx began = 0 \<and>
   \<not> tx_buf_overflow began \<and> \<not> tx_buf_overflow staged \<and>
   endTransmission absent staged =
     Some (Inr (I2C_NACK_ADDR, staged\<lparr>port := bus_nack_addr, tx_buf_idx := 0\<rparr>)) \<and>
   tx_buf_idx (staged\<lparr>port := bus_nack_addr, tx_buf_idx := 0\<rparr>) = 0"
proof -
  have a: "SoftWire_begin absent staged = Some began"
    by (simp add: SoftWire_begin_def reset_indices_def pinMode_def bus_eval absent_def staged_def fresh_def idle_bus_def
        began_def)
  have b: "\<not> tx_buf_overflow staged"
    by (simp add: staged_def fresh_def)
  have c: "endTransmission absent staged =
     Some (Inr (I2C_NACK_ADDR, staged\<lparr>port := bus_nack_addr, tx_buf_idx := 0\<rparr>))"
    using b by (simp add: endTransmission_def process_legacy_def process_absent_staged)
  from beginTransmission_resets_message_only
    [of 81 staged absent began I2C_NACK_ADDR "staged\<lparr>port := bus_nack_addr, tx_buf_idx := 0\<rparr>"]
    a b c
  show ?thesis by (simp add: staged_def)
qed

text \<open>
  C8. \<^verbatim>\<open>requestFrom\<close> clamps the count to the capacity of the receive buffer and
  not to what is left of it behind the read cursor. With buffers of four bytes, after two
  bytes were received and one of them was consumed (cursor 1), a request for four bytes to
  a slave that acknowledges makes \<^verbatim>\<open>process\<close> store the fourth byte at
  \<^verbatim>\<open>rx_buf[4]\<close>, outside the array, where a request for the three bytes that are left
  returns.
\<close>

theorem requestFrom_overruns_buffer:
  "requestFrom 4 quiet 80 2 fresh = Some (Inr (2, got_two)) \<and>
   WireBase_read got_two = Inr (0, half_read) \<and>
   rx_buf_idx half_read = 1 \<and> rx_buf_len half_read = 2 \<and> length (rx_buf half_read) = 4 \<and>
   requestFrom 4 quiet 80 4 half_read = Some (Inl OutOfBounds) \<and>
   requestFrom 4 quiet 80 3 half_read =
     Some (Inr (5, half_read\<lparr>itc_msg := \<lparr>addr = 80, flags = 0, length_m = 3, xferred = 3,
                                          data = RxPtr 1\<rparr>,
                             rx_buf_len := 5,
                             port := idle_bus\<lparr>scl_reads := 65, sda_reads := 42, nops := 498,
                               calls := [Start, ShiftOut 161, GetAck True, ShiftIn 0, SendAck,
                                 ShiftIn 0, SendNack, Stop, Start, ShiftOut 161, GetAck True,
                                 ShiftIn 0, SendAck, ShiftIn 0, SendAck, ShiftIn 0, SendNack,
                                 Stop]\<rparr>\<rparr>))"
proof -
  have c1: "requestFrom 4 quiet 80 2 fresh = Some (Inr (2, got_two))"
    by (simp add: requestFrom_def bus_eval wire_eval read_loop.simps quiet_def got_two_def
        fresh_def idle_bus_def)
  have c2: "WireBase_read got_two = Inr (0, half_read)"
    by (simp add: WireBase_read_def half_read_def got_two_def fresh_def)
  have c3: "rx_buf_idx half_read = 1" "rx_buf_len half_read = 2" "length (rx_buf half_read) = 4"
    by (simp_all add: half_read_def got_two_def fresh_def)
  have c4: "requestFrom 4 quiet 80 4 half_read = Some (Inl OutOfBounds)"
    by (simp add: requestFrom_def bus_eval wire_eval read_loop.simps quiet_def half_read_def
        got_two_def fresh_def idle_bus_def)
  have c5: "requestFrom 4 quiet 80 3 half_read =
     Some (Inr (5, half_read\<lparr>itc_msg := \<lparr>addr = 80, flags = 0, length_m = 3, xferred = 3,
                                          data = RxPtr 1\<rparr>,
                             rx_buf_len := 5,
                             port := idle_bus\<lparr>scl_reads := 65, sda_reads := 42, nops := 498,
                               calls := [Start, ShiftOut 161, GetAck True, ShiftIn 0, SendAck,
                                 ShiftIn 0, SendNack, Stop, Start, ShiftOut 161, GetAck True,
                                 ShiftIn 0, SendAck, ShiftIn 0, SendAck, ShiftIn 0, SendNack,
                                 Stop]\<rparr>\<rparr>))"
    by (simp add: requestFrom_def bus_eval wire_eval read_loop.simps quiet_def half_read_def
        got_two_def fresh_def idle_bus_def)
  show ?thesis
    by (intro conjI) (fact c1 c2 c3 c4 c5)+
qed

text \<open>
  C9. When every available byte has been consumed (the read cursor equals the available
  length), \<^verbatim>\<open>read\<close> returns 0 and sets cursor and length to 0, after which
  \<^verbatim>\<open>available\<close> returns 0. \<^verbatim>\<open>available\<close> always returns the available length
  minus the cursor in eight-bit arithmetic, which is their difference as numbers whenever
  the cursor does not exceed the length and the difference fits a byte.
\<close>

theorem read_when_drained:
  "(rx_buf_idx s = rx_buf_len s \<longrightarrow>
      WireBase_read s = Inr (0, s\<lparr>rx_buf_idx := 0, rx_buf_len := 0\<rparr>) \<and>
      available (s\<lparr>rx_buf_idx := 0, rx_buf_len := 0\<rparr>) = 0) \<and>
   available s = word_of_nat (rx_buf_len s) - word_of_nat (rx_buf_idx s) \<and>
   (rx_buf_idx s \<le> rx_buf_len s \<and> rx_buf_len s - rx_buf_idx s < 256 \<longrightarrow>
      unat (available s) = rx_buf_len s - rx_buf_idx s)"
proof (intro conjI impI)
  assume "rx_buf_idx s = rx_buf_len s"
  then show "WireBase_read s = Inr (0, s\<lparr>rx_buf_idx := 0, rx_buf_len := 0\<rparr>)"
    by (simp add: WireBase_read_def)
next
  show "available (s\<lparr>rx_buf_idx := 0, rx_buf_len := 0\<rparr>) = 0"
    by (simp add: available_def)
next
  show "available s = word_of_nat (rx_buf_len s) - word_of_nat (rx_buf_idx s)"
    by (rule available_word)
next
  assume "rx_buf_idx s \<le> rx_buf_len s \<and> rx_buf_len s - rx_buf_idx s < 256"
  then show "unat (available s) = rx_buf_len s - rx_buf_idx s"
    using available_unat by blast
qed

theorem read_when_drained_witness:
  "rx_buf_idx drained = rx_buf_len drained \<and>
   WireBase_read drained = Inr (0, fresh\<lparr>rx_buf := [7, 8, 9, 0]\<rparr>) \<and>
   available (fresh\<lparr>rx_buf := [7, 8, 9, 0]\<rparr>) = 0 \<and>
   rx_buf_idx received \<le> rx_buf_len received \<and>
   rx_buf_len received - rx_buf_idx received < 256 \<and> unat (available received) = 1"
proof -
  have a: "rx_buf_idx drained = rx_buf_len drained"
    by (simp add: drained_def fresh_def)
  have b: "rx_buf_idx received \<le> rx_buf_len received \<and>
      rx_buf_len received - rx_buf_idx received < 256"
    by (simp add: received_def fresh_def)
  have c: "drained\<lparr>rx_buf_idx := 0, rx_buf_len := 0\<rparr> = fresh\<lparr>rx_buf := [7, 8, 9, 0]\<rparr>"
    by (simp add: drained_def fresh_def)
  have d: "rx_buf_len received - rx_buf_idx received = 1"
    by (simp add: received_def fresh_def)
  from read_when_drained [of drained] a c
  have "WireBase_read drained = Inr (0, fresh\<lparr>rx_buf := [7, 8, 9, 0]\<rparr>) \<and>
      available (fresh\<lparr>rx_buf := [7, 8, 9, 0]\<rparr>) = 0"
    by simp
  moreover from read_when_drained [of received] b
  have "unat (available received) = rx_buf_len received - rx_buf_idx received" by blast
  with d have "unat (available received) = 1" by simp
  ultimately show ?thesis using a b by simp
qed

text \<open>
  C10. With exactly one unconsumed byte (cursor one below the available length, inside
  the buffer) \<^verbatim>\<open>read\<close> returns that byte and sets cursor and length to 0. Whenever the
  cursor does not exceed the length before a \<^verbatim>\<open>read\<close>, afterwards the cursor is below
  the length or both are 0, so the difference that \<^verbatim>\<open>available\<close> computes is not
  negative.
\<close>

theorem read_last_byte:
  "(Suc (rx_buf_idx s) = rx_buf_len s \<and> rx_buf_idx s < length (rx_buf s) \<longrightarrow>
      WireBase_read s = Inr (rx_buf s ! rx_buf_idx s, s\<lparr>rx_buf_idx := 0, rx_buf_len := 0\<rparr>)) \<and>
   (rx_buf_idx s \<le> rx_buf_len s \<and> WireBase_read s = Inr (v, s') \<longrightarrow>
      (rx_buf_idx s' < rx_buf_len s' \<or> rx_buf_idx s' = 0 \<and> rx_buf_len s' = 0) \<and>
      0 \<le> int (rx_buf_len s') - int (rx_buf_idx s'))"
  by (auto simp: WireBase_read_def split: if_splits)

theorem read_last_byte_witness:
  "Suc (rx_buf_idx received) = rx_buf_len received \<and>
   rx_buf_idx received < length (rx_buf received) \<and>
   rx_buf_idx received \<le> rx_buf_len received \<and>
   WireBase_read received = Inr (9, fresh\<lparr>rx_buf := [7, 8, 9, 0]\<rparr>) \<and>
   rx_buf_idx (fresh\<lparr>rx_buf := [7, 8, 9, 0]\<rparr>) = 0 \<and>
   rx_buf_len (fresh\<lparr>rx_buf := [7, 8, 9, 0]\<rparr>) = 0"
proof -
  have a: "Suc (rx_buf_idx received) = rx_buf_len received \<and>
      rx_buf_idx received < length (rx_buf received) \<and>
      rx_buf_idx received \<le> rx_buf_len received"
    by (simp add: received_def fresh_def)
  have c: "received\<lparr>rx_buf_idx := 0, rx_buf_len := 0\<rparr> = fresh\<lparr>rx_buf := [7, 8, 9, 0]\<rparr>"
    by (simp add: received_def fresh_def)
  have d: "rx_buf received ! rx_buf_idx received = 9"
    by (simp add: received_def fresh_def)
  from read_last_byte [of received] a c d
  have r: "WireBase_read received = Inr (9, fresh\<lparr>rx_buf := [7, 8, 9, 0]\<rparr>)"
    by simp
  from read_last_byte [of received 9 "fresh\<lparr>rx_buf := [7, 8, 9, 0]\<rparr>"] a r
  have "rx_buf_idx (fresh\<lparr>rx_buf := [7, 8, 9, 0]\<rparr>) < rx_buf_len (fresh\<lparr>rx_buf := [7, 8, 9, 0]\<rparr>) \<or>
      rx_buf_idx (fresh\<lparr>rx_buf := [7, 8, 9, 0]\<rparr>) = 0 \<and>
      rx_buf_len (fresh\<lparr>rx_buf := [7, 8, 9, 0]\<rparr>) = 0"
    by simp
  then have "rx_buf_idx (fresh\<lparr>rx_buf := [7, 8, 9, 0]\<rparr>) = 0 \<and>
      rx_buf_len (fresh\<lparr>rx_buf := [7, 8, 9, 0]\<rparr>) = 0"
    by (simp add: fresh_def)
  with a r show ?thesis by simp
qed

end
